theory Spec2Isabelle
  imports Main "HOL-Library.Word" "HOL-Library.Monad_Syntax"
begin

unbundle bit_operations_syntax

section \<open>Data: bytes, JavaScript strings, JSON values, storage\<close>

text \<open>
  A \<^verbatim>\<open>Uint8Array\<close> is a list of 8-bit words. A JavaScript string is a list of 16-bit
  code units. \<open>js\<close> writes an ASCII literal as a JavaScript string.
\<close>

type_synonym byte = "8 word"
type_synonym bytes = "byte list"
type_synonym jsstring = "16 word list"

definition js :: "string \<Rightarrow> jsstring" where
  "js s = map (\<lambda>c. of_nat (of_char c)) s"

text \<open>
  The values \<^verbatim>\<open>JSON.parse\<close> can return. The number type is a parameter: IEEE doubles
  are not modelled. A property read can also give \<^verbatim>\<open>undefined\<close>.
\<close>

datatype 'n json =
    JNull
  | JBool bool
  | JNum 'n
  | JStr jsstring
  | JArr "'n json list"
  | JObj "(jsstring \<times> 'n json) list"

datatype 'n jsvalue = Undefined | Val "'n json"

text \<open>
  How a call that changes the storage ends: it throws, or it returns a value. The storage
  as the call leaves it is kept beside the outcome in both cases.
\<close>

datatype 'a outcome = Throws | Returns 'a

text \<open>\<^verbatim>\<open>localStorage\<close>: a map from key strings to value strings.\<close>

type_synonym storage = "jsstring \<rightharpoonup> jsstring"

definition VAULT_STORAGE_KEY :: jsstring where
  "VAULT_STORAGE_KEY = js ''encrypted_vault''"

definition MASTER_HASH_KEY :: jsstring where
  "MASTER_HASH_KEY = js ''master_hash''"

definition getItem :: "storage \<Rightarrow> jsstring \<Rightarrow> jsstring option" where
  "getItem st k = st k"

definition removeItem :: "storage \<Rightarrow> jsstring \<Rightarrow> storage" where
  "removeItem st k = st(k := None)"

section \<open>The browser functions the code calls\<close>

text \<open>
  The key derivation, the cipher and the JSON codec are functions of the browser, not of
  this repository: they are the fields of a record that every operation takes.
  \<open>pbkdf2_sha256 password salt iterations bits\<close> is PBKDF2 with HMAC-SHA-256;
  \<open>aes_gcm_encrypt key iv plaintext\<close> is the ciphertext followed by the tag;
  \<open>aes_gcm_decrypt\<close> is \<open>None\<close> where \<^verbatim>\<open>crypto.subtle.decrypt\<close> rejects;
  \<open>json_parse\<close> is \<open>None\<close> where \<^verbatim>\<open>JSON.parse\<close> throws;
  \<open>storage_accepts st k v\<close> says whether the browser has room to store \<open>v\<close> under
  \<open>k\<close> in the storage \<open>st\<close>.
\<close>

record 'n platform =
  pbkdf2_sha256 :: "bytes \<Rightarrow> bytes \<Rightarrow> nat \<Rightarrow> nat \<Rightarrow> bytes"
  aes_gcm_encrypt :: "bytes \<Rightarrow> bytes \<Rightarrow> bytes \<Rightarrow> bytes"
  aes_gcm_decrypt :: "bytes \<Rightarrow> bytes \<Rightarrow> bytes \<Rightarrow> bytes option"
  json_stringify :: "'n json \<Rightarrow> jsstring"
  json_parse :: "jsstring \<Rightarrow> 'n json option"
  num_literal :: "int \<Rightarrow> 'n"
  num_is_zero :: "'n \<Rightarrow> bool"
  num_to_string :: "'n \<Rightarrow> jsstring"
  storage_accepts :: "storage \<Rightarrow> jsstring \<Rightarrow> jsstring \<Rightarrow> bool"

text \<open>
  \<^verbatim>\<open>localStorage.setItem\<close> with a string value: a QuotaExceededError (\<open>None\<close>) when
  the value cannot be stored, and the storage is then as it was.
\<close>

definition setItem :: "'n platform \<Rightarrow> storage \<Rightarrow> jsstring \<Rightarrow> jsstring \<Rightarrow> storage option" where
  "setItem pf st k v = (if storage_accepts pf st k v then Some (st(k \<mapsto> v)) else None)"

text \<open>
  Reading a property whose name no built-in object defines (\<^verbatim>\<open>parsed.encrypted\<close>,
  \<^verbatim>\<open>parsed.hash\<close>, \<^verbatim>\<open>vaultData.credentials\<close>): on \<^verbatim>\<open>null\<close> a TypeError
  (\<open>None\<close>), on an object its member (the last one of that name) or \<^verbatim>\<open>undefined\<close>,
  on every other value \<^verbatim>\<open>undefined\<close>.
\<close>

fun get_member :: "'n json \<Rightarrow> jsstring \<Rightarrow> 'n jsvalue option" where
  "get_member JNull k = None"
| "get_member (JObj ps) k =
     Some (case map_of (rev ps) k of None \<Rightarrow> Undefined | Some v \<Rightarrow> Val v)"
| "get_member v k = Some Undefined"

text \<open>The truth value of \<^verbatim>\<open>!x\<close> negated: what JavaScript calls truthy.\<close>

fun truthy :: "'n platform \<Rightarrow> 'n jsvalue \<Rightarrow> bool" where
  "truthy pf Undefined = False"
| "truthy pf (Val JNull) = False"
| "truthy pf (Val (JBool b)) = b"
| "truthy pf (Val (JNum n)) = (\<not> num_is_zero pf n)"
| "truthy pf (Val (JStr s)) = (s \<noteq> [])"
| "truthy pf (Val (JArr xs)) = True"
| "truthy pf (Val (JObj ps)) = True"

text \<open>
  \<^verbatim>\<open>localStorage.setItem\<close> converts the value it is given to a string before it stores
  it. A string is kept as it is. An object made by \<^verbatim>\<open>JSON.parse\<close> that has no member
  named \<^verbatim>\<open>toString\<close> is \<^verbatim>\<open>[object Object]\<close>; one that has such a member cannot be
  converted, since the member is not a function and \<^verbatim>\<open>valueOf\<close> gives no primitive:
  a TypeError (\<open>None\<close>). An array is the comma-separated conversion of its elements,
  \<^verbatim>\<open>null\<close> elements empty, and cannot be converted when an element cannot.
\<close>

fun join_comma :: "jsstring list \<Rightarrow> jsstring" where
  "join_comma [] = []"
| "join_comma [s] = s"
| "join_comma (s # t # ss) = s @ js '','' @ join_comma (t # ss)"

fun to_string :: "'n platform \<Rightarrow> 'n json \<Rightarrow> jsstring option" where
  "to_string pf JNull = Some (js ''null'')"
| "to_string pf (JBool b) = Some (if b then js ''true'' else js ''false'')"
| "to_string pf (JNum n) = Some (num_to_string pf n)"
| "to_string pf (JStr s) = Some s"
| "to_string pf (JArr xs) =
     map_option join_comma
       (those (map (\<lambda>x. if x = JNull then Some [] else to_string pf x) xs))"
| "to_string pf (JObj ps) =
     (if map_of (rev ps) (js ''toString'') = None then Some (js ''[object Object]'') else None)"

fun value_to_string :: "'n platform \<Rightarrow> 'n jsvalue \<Rightarrow> jsstring option" where
  "value_to_string pf Undefined = Some (js ''undefined'')"
| "value_to_string pf (Val v) = to_string pf v"

section \<open>Text encodings of the browser\<close>

subsection \<open>Base64: \<^verbatim>\<open>btoa\<close> and \<^verbatim>\<open>atob\<close>\<close>

text \<open>
  \<open>b64_char\<close> is the base64 alphabet (A-Z, a-z, 0-9, +, /) and \<open>b64_index\<close> its
  inverse. \<open>b64_groups\<close> cuts bytes into 6-bit values, \<open>b64_bytes\<close> puts 6-bit values
  back into bytes, dropping the bits left over at the end.
\<close>

definition b64_char :: "nat \<Rightarrow> 16 word" where
  "b64_char n =
     (if n < 26 then of_nat (65 + n)
      else if n < 52 then of_nat (71 + n)
      else if n < 62 then of_nat (n - 4)
      else if n = 62 then 43
      else 47)"

definition b64_index :: "16 word \<Rightarrow> nat option" where
  "b64_index c =
     (let u = unat c in
      if 65 \<le> u \<and> u \<le> 90 then Some (u - 65)
      else if 97 \<le> u \<and> u \<le> 122 then Some (u - 71)
      else if 48 \<le> u \<and> u \<le> 57 then Some (u + 4)
      else if u = 43 then Some 62
      else if u = 47 then Some 63
      else None)"

fun b64_groups :: "nat list \<Rightarrow> nat list" where
  "b64_groups (a # b # c # rest) =
     [a div 4, (a mod 4) * 16 + b div 16, (b mod 16) * 4 + c div 64, c mod 64] @ b64_groups rest"
| "b64_groups [a, b] = [a div 4, (a mod 4) * 16 + b div 16, (b mod 16) * 4]"
| "b64_groups [a] = [a div 4, (a mod 4) * 16]"
| "b64_groups [] = []"

fun b64_bytes :: "nat list \<Rightarrow> nat list" where
  "b64_bytes (p # q # r # s # rest) =
     [p * 4 + q div 16, (q mod 16) * 16 + r div 4, (r mod 4) * 64 + s] @ b64_bytes rest"
| "b64_bytes [p, q, r] = [p * 4 + q div 16, (q mod 16) * 16 + r div 4]"
| "b64_bytes [p, q] = [p * 4 + q div 16]"
| "b64_bytes ps = []"

definition base64_encode :: "nat list \<Rightarrow> jsstring" where
  "base64_encode bs =
     map b64_char (b64_groups bs) @ replicate ((3 - length bs mod 3) mod 3) 61"

text \<open>
  \<^verbatim>\<open>btoa\<close> takes a string whose code units are bytes and throws (\<open>None\<close>) on a code
  unit above 255.
\<close>

definition btoa :: "jsstring \<Rightarrow> jsstring option" where
  "btoa binary =
     (if list_all (\<lambda>c. c \<le> 0xFF) binary then Some (base64_encode (map unat binary)) else None)"

text \<open>
  \<^verbatim>\<open>atob\<close> is the forgiving base64 decoder: ASCII whitespace is removed; when the
  length is then a multiple of 4, one or two final \<^verbatim>\<open>=\<close> are removed; a length of
  1 modulo 4 or a character outside the alphabet throws (\<open>None\<close>).
\<close>

definition is_ascii_whitespace :: "16 word \<Rightarrow> bool" where
  "is_ascii_whitespace c = (c = 9 \<or> c = 10 \<or> c = 12 \<or> c = 13 \<or> c = 32)"

definition strip_padding :: "jsstring \<Rightarrow> jsstring" where
  "strip_padding s =
     (if length s mod 4 = 0 then
        (case rev s of
           a # b # r \<Rightarrow> if a = 61 \<and> b = 61 then rev r else if a = 61 then rev (b # r) else s
         | _ \<Rightarrow> s)
      else s)"

definition atob :: "jsstring \<Rightarrow> jsstring option" where
  "atob s =
     (let t = strip_padding (filter (\<lambda>c. \<not> is_ascii_whitespace c) s) in
      if length t mod 4 = 1 then None
      else map_option (\<lambda>ps. map of_nat (b64_bytes ps)) (those (map b64_index t)))"

subsection \<open>UTF-8: \<^verbatim>\<open>TextEncoder\<close> and \<^verbatim>\<open>TextDecoder\<close>\<close>

text \<open>
  \<^verbatim>\<open>TextEncoder.encode\<close> first reads the string as scalar values, a surrogate that has
  no partner becoming U+FFFD, and then writes each scalar value in UTF-8.
\<close>

definition is_high_surrogate :: "16 word \<Rightarrow> bool" where
  "is_high_surrogate u = (0xD800 \<le> unat u \<and> unat u \<le> 0xDBFF)"

definition is_low_surrogate :: "16 word \<Rightarrow> bool" where
  "is_low_surrogate u = (0xDC00 \<le> unat u \<and> unat u \<le> 0xDFFF)"

fun utf16_to_scalars :: "jsstring \<Rightarrow> nat list" where
  "utf16_to_scalars [] = []"
| "utf16_to_scalars [u] =
     (if is_high_surrogate u \<or> is_low_surrogate u then [0xFFFD] else [unat u])"
| "utf16_to_scalars (u # v # rest) =
     (if is_high_surrogate u \<and> is_low_surrogate v
      then (0x10000 + (unat u - 0xD800) * 0x400 + (unat v - 0xDC00)) # utf16_to_scalars rest
      else if is_high_surrogate u \<or> is_low_surrogate u
      then 0xFFFD # utf16_to_scalars (v # rest)
      else unat u # utf16_to_scalars (v # rest))"

definition utf8_encode_scalar :: "nat \<Rightarrow> bytes" where
  "utf8_encode_scalar c =
     (if c < 0x80 then [of_nat c]
      else if c < 0x800 then [of_nat (0xC0 + c div 64), of_nat (0x80 + c mod 64)]
      else if c < 0x10000 then
        [of_nat (0xE0 + c div 4096), of_nat (0x80 + c div 64 mod 64), of_nat (0x80 + c mod 64)]
      else
        [of_nat (0xF0 + c div 262144), of_nat (0x80 + c div 4096 mod 64),
         of_nat (0x80 + c div 64 mod 64), of_nat (0x80 + c mod 64)])"

text \<open>
  Scalar values are the code points that are not surrogates. A string is well formed when
  every surrogate in it is half of a pair; it starts with a byte order mark when its
  first code unit is U+FEFF.
\<close>

definition is_scalar :: "nat \<Rightarrow> bool" where
  "is_scalar c = (c < 0x110000 \<and> (c < 0xD800 \<or> 0xDFFF < c))"

fun well_formed_utf16 :: "jsstring \<Rightarrow> bool" where
  "well_formed_utf16 [] = True"
| "well_formed_utf16 [u] = (\<not> is_high_surrogate u \<and> \<not> is_low_surrogate u)"
| "well_formed_utf16 (u # v # rest) =
     (if is_high_surrogate u then is_low_surrogate v \<and> well_formed_utf16 rest
      else \<not> is_low_surrogate u \<and> well_formed_utf16 (v # rest))"

definition starts_with_bom :: "jsstring \<Rightarrow> bool" where
  "starts_with_bom s = (case s of [] \<Rightarrow> False | u # rest \<Rightarrow> u = 0xFEFF)"

definition TextEncoder_encode :: "jsstring \<Rightarrow> bytes" where
  "TextEncoder_encode str = concat (map utf8_encode_scalar (utf16_to_scalars str))"

text \<open>
  The UTF-8 decoder of \<^verbatim>\<open>new TextDecoder()\<close> (not fatal): a state machine over the
  bytes with the code point so far, the bytes seen and needed, and the bounds of the
  next continuation byte. A byte that cannot continue a sequence gives U+FFFD and is
  read again as the start of a sequence; an unfinished sequence at the end gives U+FFFD.
\<close>

function utf8_decode :: "nat \<Rightarrow> nat \<Rightarrow> nat \<Rightarrow> nat \<Rightarrow> nat \<Rightarrow> bytes \<Rightarrow> nat list" where
  "utf8_decode cp seen needed lo hi [] = (if needed \<noteq> 0 then [0xFFFD] else [])"
| "utf8_decode cp seen needed lo hi (b # bs) =
     (let x = unat b in
      if needed = 0 then
        (if x \<le> 0x7F then x # utf8_decode 0 0 0 0x80 0xBF bs
         else if 0xC2 \<le> x \<and> x \<le> 0xDF then utf8_decode (x mod 32) 0 1 0x80 0xBF bs
         else if 0xE0 \<le> x \<and> x \<le> 0xEF
         then utf8_decode (x mod 16) 0 2
                (if x = 0xE0 then 0xA0 else 0x80) (if x = 0xED then 0x9F else 0xBF) bs
         else if 0xF0 \<le> x \<and> x \<le> 0xF4
         then utf8_decode (x mod 8) 0 3
                (if x = 0xF0 then 0x90 else 0x80) (if x = 0xF4 then 0x8F else 0xBF) bs
         else 0xFFFD # utf8_decode 0 0 0 0x80 0xBF bs)
      else if x < lo \<or> hi < x then 0xFFFD # utf8_decode 0 0 0 0x80 0xBF (b # bs)
      else if seen + 1 \<noteq> needed
      then utf8_decode (cp * 64 + x mod 64) (seen + 1) needed 0x80 0xBF bs
      else (cp * 64 + x mod 64) # utf8_decode 0 0 0 0x80 0xBF bs)"
  by pat_completeness auto
termination
  by (relation "measure (\<lambda>(cp, seen, needed, lo, hi, bs).
                  2 * length bs + (if needed = 0 then 0 else 1))") auto

definition scalar_to_utf16 :: "nat \<Rightarrow> jsstring" where
  "scalar_to_utf16 c =
     (if c < 0x10000 then [of_nat c]
      else [of_nat (0xD800 + (c - 0x10000) div 0x400),
            of_nat (0xDC00 + (c - 0x10000) mod 0x400)])"

text \<open>
  \<^verbatim>\<open>decode\<close> of a decoder made with no options drops a byte order mark: when the
  first decoded code point is U+FEFF it is not part of the result.
\<close>

definition strip_bom :: "nat list \<Rightarrow> nat list" where
  "strip_bom cs = (case cs of [] \<Rightarrow> [] | c # rest \<Rightarrow> if c = 0xFEFF then rest else cs)"

definition TextDecoder_decode :: "bytes \<Rightarrow> jsstring" where
  "TextDecoder_decode buffer =
     concat (map scalar_to_utf16 (strip_bom (utf8_decode 0 0 0 0x80 0xBF buffer)))"

section \<open>crypto: the encryption utilities\<close>

definition SALT_LENGTH :: nat where
  "SALT_LENGTH = 16"

definition IV_LENGTH :: nat where
  "IV_LENGTH = 12"

definition KEY_ITERATIONS :: nat where
  "KEY_ITERATIONS = 100000"

definition stringToBuffer :: "jsstring \<Rightarrow> bytes" where
  "stringToBuffer str = TextEncoder_encode str"

definition bufferToString :: "bytes \<Rightarrow> jsstring" where
  "bufferToString buffer = TextDecoder_decode buffer"

text \<open>
  \<^verbatim>\<open>uint8ArrayToBase64\<close>: the loop appends \<^verbatim>\<open>String.fromCharCode(bytes[i])\<close> for every
  index, then \<^verbatim>\<open>btoa\<close> encodes. \<^verbatim>\<open>base64ToUint8Array\<close>: \<^verbatim>\<open>atob\<close> decodes, the loop
  stores \<^verbatim>\<open>binary.charCodeAt(i)\<close> in a byte array.
\<close>

definition uint8ArrayToBase64 :: "bytes \<Rightarrow> jsstring option" where
  "uint8ArrayToBase64 bs = btoa (map ucast bs)"

definition base64ToUint8Array :: "jsstring \<Rightarrow> bytes option" where
  "base64ToUint8Array base64 = map_option (map ucast) (atob base64)"

text \<open>
  Typed arrays. \<open>new_Uint8Array n\<close> is \<open>n\<close> zero bytes; \<open>typed_set\<close> is
  \<^verbatim>\<open>target.set(source, offset)\<close>, a RangeError (\<open>None\<close>) when the source does not fit;
  \<open>slice_between\<close> and \<open>slice_from\<close> are \<^verbatim>\<open>slice(begin, end)\<close> and \<^verbatim>\<open>slice(begin)\<close> for
  indices that are not negative; \<open>typed_get\<close> is an indexed read, \<^verbatim>\<open>undefined\<close>
  (\<open>None\<close>) out of range.
\<close>

definition new_Uint8Array :: "nat \<Rightarrow> bytes" where
  "new_Uint8Array n = replicate n 0"

definition typed_set :: "bytes \<Rightarrow> bytes \<Rightarrow> nat \<Rightarrow> bytes option" where
  "typed_set target source offset =
     (if offset + length source \<le> length target
      then Some (take offset target @ source @ drop (offset + length source) target)
      else None)"

definition slice_between :: "bytes \<Rightarrow> nat \<Rightarrow> nat \<Rightarrow> bytes" where
  "slice_between xs b e = take (min e (length xs) - b) (drop b xs)"

definition slice_from :: "bytes \<Rightarrow> nat \<Rightarrow> bytes" where
  "slice_from xs b = drop b xs"

definition typed_get :: "bytes \<Rightarrow> nat \<Rightarrow> byte option" where
  "typed_get xs i = (if i < length xs then Some (xs ! i) else None)"

text \<open>
  \<^verbatim>\<open>crypto.getRandomValues\<close> fills an array of \<open>n\<close> bytes. The random source is an
  unbounded supply of bytes; a call takes the next \<open>n\<close> of them.
\<close>

type_synonym rng = "nat \<Rightarrow> byte"

definition getRandomValues :: "nat \<Rightarrow> rng \<Rightarrow> bytes \<times> rng" where
  "getRandomValues n g = (map g [0..<n], \<lambda>i. g (n + i))"

text \<open>
  The Web Cryptography calls. A \<^verbatim>\<open>CryptoKey\<close> holds its key bits. Importing a raw key
  for PBKDF2 keeps the password bytes; \<^verbatim>\<open>deriveBits\<close> is PBKDF2 of that length;
  \<^verbatim>\<open>deriveKey\<close> derives as many bits as the wanted key has and imports them as the key.
\<close>

datatype crypto_key = CryptoKey (raw_key: bytes)

definition subtle_importKey :: "bytes \<Rightarrow> crypto_key" where
  "subtle_importKey keyData = CryptoKey keyData"

definition subtle_deriveBits ::
  "'n platform \<Rightarrow> bytes \<Rightarrow> nat \<Rightarrow> crypto_key \<Rightarrow> nat \<Rightarrow> bytes" where
  "subtle_deriveBits pf salt iterations keyMaterial len =
     pbkdf2_sha256 pf (raw_key keyMaterial) salt iterations len"

definition subtle_deriveKey ::
  "'n platform \<Rightarrow> bytes \<Rightarrow> nat \<Rightarrow> crypto_key \<Rightarrow> nat \<Rightarrow> crypto_key" where
  "subtle_deriveKey pf salt iterations keyMaterial len =
     subtle_importKey (subtle_deriveBits pf salt iterations keyMaterial len)"

definition subtle_encrypt :: "'n platform \<Rightarrow> bytes \<Rightarrow> crypto_key \<Rightarrow> bytes \<Rightarrow> bytes" where
  "subtle_encrypt pf iv key pt = aes_gcm_encrypt pf (raw_key key) iv pt"

definition subtle_decrypt ::
  "'n platform \<Rightarrow> bytes \<Rightarrow> crypto_key \<Rightarrow> bytes \<Rightarrow> bytes option" where
  "subtle_decrypt pf iv key data = aes_gcm_decrypt pf (raw_key key) iv data"

definition deriveKey :: "'n platform \<Rightarrow> jsstring \<Rightarrow> bytes \<Rightarrow> crypto_key" where
  "deriveKey pf password salt =
     (let passwordBuffer = stringToBuffer password;
          keyMaterial = subtle_importKey passwordBuffer
      in subtle_deriveKey pf salt KEY_ITERATIONS keyMaterial 256)"

text \<open>
  \<^verbatim>\<open>encrypt\<close> and \<^verbatim>\<open>hashPassword\<close> draw their random bytes from the source and
  return what is left of it. \<open>None\<close> is an exception that leaves the function.
\<close>

definition encrypt ::
  "'n platform \<Rightarrow> jsstring \<Rightarrow> jsstring \<Rightarrow> rng \<Rightarrow> (jsstring \<times> rng) option" where
  "encrypt pf plaintext masterPassword g =
     (let (salt, g1) = getRandomValues SALT_LENGTH g;
          (iv, g2) = getRandomValues IV_LENGTH g1;
          key = deriveKey pf masterPassword salt;
          encryptedData = subtle_encrypt pf iv key (stringToBuffer plaintext);
          combined = new_Uint8Array (SALT_LENGTH + IV_LENGTH + length encryptedData)
      in do {
        c1 \<leftarrow> typed_set combined salt 0;
        c2 \<leftarrow> typed_set c1 iv SALT_LENGTH;
        c3 \<leftarrow> typed_set c2 encryptedData (SALT_LENGTH + IV_LENGTH);
        text \<leftarrow> uint8ArrayToBase64 c3;
        Some (text, g2)
      })"

definition decrypt :: "'n platform \<Rightarrow> jsstring \<Rightarrow> jsstring \<Rightarrow> jsstring option" where
  "decrypt pf ciphertext masterPassword =
     do {
       combined \<leftarrow> base64ToUint8Array ciphertext;
       let salt = slice_between combined 0 SALT_LENGTH;
       let iv = slice_between combined SALT_LENGTH (SALT_LENGTH + IV_LENGTH);
       let encryptedData = slice_from combined (SALT_LENGTH + IV_LENGTH);
       let key = deriveKey pf masterPassword salt;
       decryptedData \<leftarrow> subtle_decrypt pf iv key encryptedData;
       Some (bufferToString decryptedData)
     }"

definition hashPassword ::
  "'n platform \<Rightarrow> jsstring \<Rightarrow> rng \<Rightarrow> (jsstring \<times> rng) option" where
  "hashPassword pf password g =
     (let (salt, g1) = getRandomValues SALT_LENGTH g;
          passwordBuffer = stringToBuffer password;
          keyMaterial = subtle_importKey passwordBuffer;
          derivedBits = subtle_deriveBits pf salt KEY_ITERATIONS keyMaterial 256;
          combined = new_Uint8Array (SALT_LENGTH + length derivedBits)
      in do {
        c1 \<leftarrow> typed_set combined salt 0;
        c2 \<leftarrow> typed_set c1 derivedBits SALT_LENGTH;
        text \<leftarrow> uint8ArrayToBase64 c2;
        Some (text, g1)
      })"

text \<open>
  The comparison loop of \<^verbatim>\<open>verifyPassword\<close>, from index \<open>i\<close>: the verdict, and the number
  of times \<^verbatim>\<open>storedBits[i] !== newBits[i]\<close> has been evaluated when the loop is left.
\<close>

function compare_bits :: "bytes \<Rightarrow> bytes \<Rightarrow> nat \<Rightarrow> bool \<times> nat" where
  "compare_bits storedBits newBits i =
     (if i < length storedBits then
        (if typed_get storedBits i \<noteq> typed_get newBits i then (False, Suc i)
         else compare_bits storedBits newBits (Suc i))
      else (True, i))"
  by pat_completeness auto
termination
  by (relation "measure (\<lambda>(storedBits, newBits, i). length storedBits - i)") auto

definition verifyPassword :: "'n platform \<Rightarrow> jsstring \<Rightarrow> jsstring \<Rightarrow> bool" where
  "verifyPassword pf password storedHash =
     (case base64ToUint8Array storedHash of
        None \<Rightarrow> False
      | Some combined \<Rightarrow>
          (let salt = slice_between combined 0 SALT_LENGTH;
               passwordBuffer = stringToBuffer password;
               keyMaterial = subtle_importKey passwordBuffer;
               derivedBits = subtle_deriveBits pf salt KEY_ITERATIONS keyMaterial 256;
               storedBits = slice_from combined SALT_LENGTH;
               newBits = derivedBits
           in if length storedBits \<noteq> length newBits then False
              else fst (compare_bits storedBits newBits 0)))"

text \<open>
  The parts of a stored artifact and of a stored container, read as \<^verbatim>\<open>verifyPassword\<close>
  and \<^verbatim>\<open>decrypt\<close> read them (empty when the text is not base64).
\<close>

definition stored_salt :: "jsstring \<Rightarrow> bytes" where
  "stored_salt storedHash =
     (case base64ToUint8Array storedHash of
        None \<Rightarrow> [] | Some combined \<Rightarrow> slice_between combined 0 SALT_LENGTH)"

definition stored_bits :: "jsstring \<Rightarrow> bytes" where
  "stored_bits storedHash =
     (case base64ToUint8Array storedHash of
        None \<Rightarrow> [] | Some combined \<Rightarrow> slice_from combined SALT_LENGTH)"

definition container_salt :: "jsstring \<Rightarrow> bytes" where
  "container_salt ciphertext =
     (case base64ToUint8Array ciphertext of
        None \<Rightarrow> [] | Some combined \<Rightarrow> slice_between combined 0 SALT_LENGTH)"

definition container_iv :: "jsstring \<Rightarrow> bytes" where
  "container_iv ciphertext =
     (case base64ToUint8Array ciphertext of
        None \<Rightarrow> []
      | Some combined \<Rightarrow> slice_between combined SALT_LENGTH (SALT_LENGTH + IV_LENGTH))"

definition container_data :: "jsstring \<Rightarrow> bytes" where
  "container_data ciphertext =
     (case base64ToUint8Array ciphertext of
        None \<Rightarrow> [] | Some combined \<Rightarrow> slice_from combined (SALT_LENGTH + IV_LENGTH))"

section \<open>vault: the stored vault\<close>

text \<open>
  A \<^verbatim>\<open>Credential\<close> and the object it is at run time: \<^verbatim>\<open>url\<close> and \<^verbatim>\<open>notes\<close> are left
  out of the serialization when they are \<^verbatim>\<open>undefined\<close>.
\<close>

datatype CredentialCategory = social | finance | work | shopping | entertainment | other

record 'n Credential =
  cred_id :: jsstring
  cred_name :: jsstring
  cred_username :: jsstring
  cred_password :: jsstring
  cred_url :: "jsstring option"
  cred_notes :: "jsstring option"
  cred_category :: CredentialCategory
  cred_createdAt :: 'n
  cred_updatedAt :: 'n
  cred_favorite :: bool

fun category_name :: "CredentialCategory \<Rightarrow> jsstring" where
  "category_name social = js ''social''"
| "category_name finance = js ''finance''"
| "category_name work = js ''work''"
| "category_name shopping = js ''shopping''"
| "category_name entertainment = js ''entertainment''"
| "category_name other = js ''other''"

definition credential_object :: "'n Credential \<Rightarrow> 'n json" where
  "credential_object c =
     JObj ([(js ''id'', JStr (cred_id c)), (js ''name'', JStr (cred_name c)),
            (js ''username'', JStr (cred_username c)), (js ''password'', JStr (cred_password c))]
           @ (case cred_url c of None \<Rightarrow> [] | Some u \<Rightarrow> [(js ''url'', JStr u)])
           @ (case cred_notes c of None \<Rightarrow> [] | Some n \<Rightarrow> [(js ''notes'', JStr n)])
           @ [(js ''category'', JStr (category_name (cred_category c))),
              (js ''createdAt'', JNum (cred_createdAt c)),
              (js ''updatedAt'', JNum (cred_updatedAt c)),
              (js ''favorite'', JBool (cred_favorite c))])"

definition VAULT_VERSION :: int where
  "VAULT_VERSION = 1"

text \<open>The \<^verbatim>\<open>VaultData\<close> object that is serialized: the credentials and the version.\<close>

definition VaultData :: "'n platform \<Rightarrow> 'n json \<Rightarrow> int \<Rightarrow> 'n json" where
  "VaultData pf credentials version =
     JObj [(js ''credentials'', credentials), (js ''version'', JNum (num_literal pf version))]"

text \<open>A storage read is falsy when the key is absent or the value is the empty string.\<close>

definition falsy_item :: "jsstring option \<Rightarrow> bool" where
  "falsy_item v = (case v of None \<Rightarrow> True | Some s \<Rightarrow> s = [])"

definition vaultExists :: "storage \<Rightarrow> bool" where
  "vaultExists st = (getItem st MASTER_HASH_KEY \<noteq> None)"

text \<open>
  \<^verbatim>\<open>createVault\<close>: the artifact is written before the container is made, so a throw of the
  second write leaves the new artifact in the storage.
\<close>

definition createVault ::
  "'n platform \<Rightarrow> jsstring \<Rightarrow> storage \<times> rng \<Rightarrow> unit outcome \<times> storage \<times> rng" where
  "createVault pf masterPassword w =
     (case w of (st, g) \<Rightarrow>
        (case hashPassword pf masterPassword g of
           None \<Rightarrow> (Throws, st, g)
         | Some (hash, g1) \<Rightarrow>
             (case setItem pf st MASTER_HASH_KEY hash of
                None \<Rightarrow> (Throws, st, g1)
              | Some st1 \<Rightarrow>
                  (let emptyVault = VaultData pf (JArr []) VAULT_VERSION in
                   case encrypt pf (json_stringify pf emptyVault) masterPassword g1 of
                     None \<Rightarrow> (Throws, st1, g1)
                   | Some (encrypted, g2) \<Rightarrow>
                       (case setItem pf st1 VAULT_STORAGE_KEY encrypted of
                          None \<Rightarrow> (Throws, st1, g2)
                        | Some st2 \<Rightarrow> (Returns (), st2, g2))))))"

text \<open>
  \<^verbatim>\<open>unlockVault\<close>: the outcome (\<open>Returns (Val JNull)\<close> is \<^verbatim>\<open>null\<close>), the storage and the
  random source afterwards. The \<^verbatim>\<open>try\<close> block turns an exception of \<^verbatim>\<open>decrypt\<close>,
  of \<^verbatim>\<open>JSON.parse\<close> or of the property read into \<^verbatim>\<open>null\<close>; \<^verbatim>\<open>createVault\<close> is called
  outside of it, so what it throws leaves \<^verbatim>\<open>unlockVault\<close>.
\<close>

definition unlockVault ::
  "'n platform \<Rightarrow> jsstring \<Rightarrow> storage \<times> rng \<Rightarrow> 'n jsvalue outcome \<times> storage \<times> rng" where
  "unlockVault pf masterPassword w =
     (case w of (st, g) \<Rightarrow>
        (case getItem st MASTER_HASH_KEY of
           None \<Rightarrow> (Returns (Val JNull), st, g)
         | Some storedHash \<Rightarrow>
             if storedHash = [] then (Returns (Val JNull), st, g)
             else if \<not> verifyPassword pf masterPassword storedHash
             then (Returns (Val JNull), st, g)
             else
               (let encryptedVault = getItem st VAULT_STORAGE_KEY in
                if falsy_item encryptedVault then
                  (case createVault pf masterPassword (st, g) of
                     (Throws, st', g') \<Rightarrow> (Throws, st', g')
                   | (Returns u, st', g') \<Rightarrow> (Returns (Val (JArr [])), st', g'))
                else
                  (case decrypt pf (the encryptedVault) masterPassword of
                     None \<Rightarrow> (Returns (Val JNull), st, g)
                   | Some decrypted \<Rightarrow>
                       (case json_parse pf decrypted of
                          None \<Rightarrow> (Returns (Val JNull), st, g)
                        | Some vaultData \<Rightarrow>
                            (case get_member vaultData (js ''credentials'') of
                               None \<Rightarrow> (Returns (Val JNull), st, g)
                             | Some credentials \<Rightarrow> (Returns credentials, st, g)))))))"

definition saveVault ::
  "'n platform \<Rightarrow> 'n json \<Rightarrow> jsstring \<Rightarrow> storage \<times> rng \<Rightarrow> unit outcome \<times> storage \<times> rng" where
  "saveVault pf credentials masterPassword w =
     (case w of (st, g) \<Rightarrow>
        (let vaultData = VaultData pf credentials VAULT_VERSION in
         case encrypt pf (json_stringify pf vaultData) masterPassword g of
           None \<Rightarrow> (Throws, st, g)
         | Some (encrypted, g') \<Rightarrow>
             (case setItem pf st VAULT_STORAGE_KEY encrypted of
                None \<Rightarrow> (Throws, st, g')
              | Some st' \<Rightarrow> (Returns (), st', g'))))"

definition deleteVault :: "storage \<Rightarrow> storage" where
  "deleteVault st = removeItem (removeItem st VAULT_STORAGE_KEY) MASTER_HASH_KEY"

text \<open>
  \<^verbatim>\<open>exportVault\<close>: \<open>None\<close> is \<^verbatim>\<open>null\<close>. The record that is serialized has the members
  \<^verbatim>\<open>encrypted\<close>, \<^verbatim>\<open>hash\<close> and \<^verbatim>\<open>version\<close>.
\<close>

definition exportVault :: "'n platform \<Rightarrow> storage \<Rightarrow> jsstring option" where
  "exportVault pf st =
     (let encrypted = getItem st VAULT_STORAGE_KEY;
          hash = getItem st MASTER_HASH_KEY
      in if falsy_item encrypted \<or> falsy_item hash then None
         else Some (json_stringify pf
                (JObj [(js ''encrypted'', JStr (the encrypted)), (js ''hash'', JStr (the hash)),
                       (js ''version'', JNum (num_literal pf VAULT_VERSION))])))"


text \<open>
  \<^verbatim>\<open>importVault\<close>: the \<^verbatim>\<open>try\<close> block parses, reads the two members, and writes the two
  slots one after the other; every exception gives \<^verbatim>\<open>false\<close>. An exception of the
  second \<^verbatim>\<open>setItem\<close>, in the conversion of its argument or in the write, comes after
  the first slot was written. The result is the returned flag and the storage afterwards.
\<close>

definition importVault :: "'n platform \<Rightarrow> jsstring \<Rightarrow> storage \<Rightarrow> bool \<times> storage" where
  "importVault pf data st =
     (case json_parse pf data of
        None \<Rightarrow> (False, st)
      | Some parsed \<Rightarrow>
          (case get_member parsed (js ''encrypted'') of
             None \<Rightarrow> (False, st)
           | Some enc \<Rightarrow>
               if \<not> truthy pf enc then (False, st)
               else
                 (case get_member parsed (js ''hash'') of
                    None \<Rightarrow> (False, st)
                  | Some h \<Rightarrow>
                      if \<not> truthy pf h then (False, st)
                      else
                        (case value_to_string pf enc of
                           None \<Rightarrow> (False, st)
                         | Some e \<Rightarrow>
                             (case setItem pf st VAULT_STORAGE_KEY e of
                                None \<Rightarrow> (False, st)
                              | Some st1 \<Rightarrow>
                                  (case value_to_string pf h of
                                     None \<Rightarrow> (False, st1)
                                   | Some hs \<Rightarrow>
                                       (case setItem pf st1 MASTER_HASH_KEY hs of
                                          None \<Rightarrow> (False, st1)
                                        | Some st2 \<Rightarrow> (True, st2))))))))"

section \<open>An example platform\<close>

text \<open>
  A small platform on which the operations can be run: a key derivation that sums the
  password and salt bytes, a cipher that masks every byte and appends a 16-byte tag,
  integers as numbers, a JSON printer, a JSON reader that inverts the printer on the
  documents of the examples and rejects every other text, and a storage with room for
  every write. It stands for the browser in the examples only.
\<close>

definition example_mask :: "bytes \<Rightarrow> bytes \<Rightarrow> byte" where
  "example_mask key iv = foldr (\<lambda>a b. a XOR b) (key @ iv) 0x5A"

definition example_encrypt :: "bytes \<Rightarrow> bytes \<Rightarrow> bytes \<Rightarrow> bytes" where
  "example_encrypt key iv pt =
     map (\<lambda>b. b XOR example_mask key iv) pt @ replicate 16 (example_mask key iv)"

definition example_decrypt :: "bytes \<Rightarrow> bytes \<Rightarrow> bytes \<Rightarrow> bytes option" where
  "example_decrypt key iv data =
     (if length data < 16 then None
      else if drop (length data - 16) data = replicate 16 (example_mask key iv)
      then Some (map (\<lambda>b. b XOR example_mask key iv) (take (length data - 16) data))
      else None)"

definition example_pbkdf2 :: "bytes \<Rightarrow> bytes \<Rightarrow> nat \<Rightarrow> nat \<Rightarrow> bytes" where
  "example_pbkdf2 pw salt iterations bits =
     map (\<lambda>i. foldr (\<lambda>a b. a + b) (pw @ salt) (of_nat i)) [0..<bits div 8]"

fun dec_digits :: "nat \<Rightarrow> string" where
  "dec_digits n =
     (if n < 10 then [char_of (48 + n)]
      else dec_digits (n div 10) @ [char_of (48 + n mod 10)])"

definition example_num_to_string :: "int \<Rightarrow> jsstring" where
  "example_num_to_string i =
     (if i < 0 then js ''-'' @ js (dec_digits (nat (- i))) else js (dec_digits (nat i)))"

definition quote_string :: "jsstring \<Rightarrow> jsstring" where
  "quote_string s =
     [34] @ concat (map (\<lambda>c. if c = 34 \<or> c = 92 then [92, c] else [c]) s) @ [34]"

fun example_stringify :: "int json \<Rightarrow> jsstring" where
  "example_stringify JNull = js ''null''"
| "example_stringify (JBool b) = (if b then js ''true'' else js ''false'')"
| "example_stringify (JNum n) = example_num_to_string n"
| "example_stringify (JStr s) = quote_string s"
| "example_stringify (JArr xs) =
     js ''['' @ join_comma (map example_stringify xs) @ js '']''"
| "example_stringify (JObj ps) =
     js ''{'' @ join_comma (map (\<lambda>(k, v). quote_string k @ js '':'' @ example_stringify v) ps)
       @ js ''}''"

definition example_credential :: "int Credential" where
  "example_credential =
     \<lparr> cred_id = js ''id-1'', cred_name = js ''Example'',
       cred_username = js ''user@example.com'', cred_password = js ''p@ssW0rd!'',
       cred_url = None, cred_notes = None, cred_category = other,
       cred_createdAt = 1700000000000, cred_updatedAt = 1700000000000,
       cred_favorite = False \<rparr>"

definition unchecked_import_text :: jsstring where
  \<open>unchecked_import_text = js ''{"encrypted":"!!","hash":"??","version":99}''\<close>

definition unchecked_import_doc :: "int json" where
  "unchecked_import_doc =
     JObj [(js ''encrypted'', JStr (js ''!!'')), (js ''hash'', JStr (js ''??'')),
           (js ''version'', JNum 99)]"

definition unchecked_import_store :: storage where
  "unchecked_import_store = [VAULT_STORAGE_KEY \<mapsto> js ''!!'', MASTER_HASH_KEY \<mapsto> js ''??'']"


definition partial_import_doc :: "int json" where
  "partial_import_doc = JObj [(js ''encrypted'', JStr (js ''QUJD''))]"


definition torn_import_doc :: "int json" where
  "torn_import_doc =
     JObj [(js ''encrypted'', JStr (js ''QUJD'')),
           (js ''hash'', JObj [(js ''toString'', JNum 1)])]"

definition refused_import_text :: jsstring where
  \<open>refused_import_text = js ''{"encrypted":{"toString":1},"hash":"h"}''\<close>

definition refused_import_doc :: "int json" where
  "refused_import_doc =
     JObj [(js ''encrypted'', JObj [(js ''toString'', JNum 1)]),
           (js ''hash'', JStr (js ''h''))]"

definition example_documents :: "int json list" where
  "example_documents =
     [JObj [(js ''credentials'', JArr []), (js ''version'', JNum 1)],
      JObj [(js ''credentials'', JArr [credential_object example_credential]),
            (js ''version'', JNum 1)],
      JObj [(js ''credentials'', JArr [credential_object example_credential]),
            (js ''version'', JNum 2)],
      JObj [(js ''credentials'', JArr []), (js ''version'', JNum 3)],
      unchecked_import_doc,
      partial_import_doc,
      torn_import_doc,
      refused_import_doc]"

definition example_parse :: "jsstring \<Rightarrow> int json option" where
  "example_parse text = find (\<lambda>d. example_stringify d = text) example_documents"

definition example_platform :: "int platform" where
  "example_platform =
     \<lparr> pbkdf2_sha256 = example_pbkdf2,
       aes_gcm_encrypt = example_encrypt,
       aes_gcm_decrypt = example_decrypt,
       json_stringify = example_stringify,
       json_parse = example_parse,
       num_literal = (\<lambda>i. i),
       num_is_zero = (\<lambda>i. i = 0),
       num_to_string = example_num_to_string,
       storage_accepts = (\<lambda>st k v. True) \<rparr>"

definition example_rng :: rng where
  "example_rng i = of_nat (7 * i + 3)"

text \<open>
  The same platform with a full storage: a write is accepted only when it replaces a
  value by one that is not longer.
\<close>

definition full_storage_accepts :: "storage \<Rightarrow> jsstring \<Rightarrow> jsstring \<Rightarrow> bool" where
  "full_storage_accepts st k v =
     (case st k of None \<Rightarrow> False | Some previous \<Rightarrow> length v \<le> length previous)"

definition full_platform :: "int platform" where
  "full_platform = example_platform \<lparr> storage_accepts := full_storage_accepts \<rparr>"

text \<open>
  The values of the examples: a password, the artifact and two successive containers made
  for it from the example random source, and a storage that holds the artifact only.
\<close>

definition example_password :: jsstring where
  "example_password = js ''correct-horse-battery''"

definition example_artifact :: jsstring where
  "example_artifact =
     (case hashPassword example_platform example_password example_rng of
        None \<Rightarrow> [] | Some (h, g) \<Rightarrow> h)"

definition empty_vault_text :: jsstring where
  "empty_vault_text =
     json_stringify example_platform (VaultData example_platform (JArr []) VAULT_VERSION)"

definition example_container :: jsstring where
  "example_container =
     (case encrypt example_platform empty_vault_text example_password example_rng of
        None \<Rightarrow> [] | Some (c, g) \<Rightarrow> c)"

definition example_container_next :: jsstring where
  "example_container_next =
     (case encrypt example_platform empty_vault_text example_password
             (\<lambda>i. example_rng (28 + i)) of
        None \<Rightarrow> [] | Some (c, g) \<Rightarrow> c)"

definition hash_only_store :: storage where
  "hash_only_store = [MASTER_HASH_KEY \<mapsto> example_artifact]"

text \<open>
  More values of the examples: a text that starts with a byte order mark and its container,
  the serialized collections at versions 1, 2 and 3, the containers and storages of the
  last two, and a password that is not the example password.
\<close>

definition version1_doc :: "int json" where
  "version1_doc =
     JObj [(js ''credentials'', JArr [credential_object example_credential]),
           (js ''version'', JNum 1)]"

definition bom_text :: jsstring where
  "bom_text = [0xFEFF, 0x61]"

definition bom_container :: jsstring where
  "bom_container =
     (case encrypt example_platform bom_text example_password example_rng of
        None \<Rightarrow> [] | Some (c, g) \<Rightarrow> c)"

definition version2_doc :: "int json" where
  "version2_doc =
     JObj [(js ''credentials'', JArr [credential_object example_credential]),
           (js ''version'', JNum 2)]"

definition version2_container :: jsstring where
  "version2_container =
     (case encrypt example_platform (example_stringify version2_doc) example_password
             example_rng of
        None \<Rightarrow> [] | Some (c, g) \<Rightarrow> c)"

definition version2_store :: storage where
  "version2_store =
     [MASTER_HASH_KEY \<mapsto> example_artifact, VAULT_STORAGE_KEY \<mapsto> version2_container]"

definition version3_doc :: "int json" where
  "version3_doc = JObj [(js ''credentials'', JArr []), (js ''version'', JNum 3)]"

definition version3_container :: jsstring where
  "version3_container =
     (case encrypt example_platform (example_stringify version3_doc) example_password
             example_rng of
        None \<Rightarrow> [] | Some (c, g) \<Rightarrow> c)"

definition version3_store :: storage where
  "version3_store =
     [MASTER_HASH_KEY \<mapsto> example_artifact, VAULT_STORAGE_KEY \<mapsto> version3_container]"

definition later_rng :: rng where
  "later_rng i = example_rng (56 + i)"

definition later_artifact :: jsstring where
  "later_artifact =
     (case hashPassword example_platform example_password later_rng of
        None \<Rightarrow> [] | Some (h, g) \<Rightarrow> h)"

definition version1_container :: jsstring where
  "version1_container =
     (case encrypt example_platform (example_stringify version1_doc) example_password
             example_rng of
        None \<Rightarrow> [] | Some (c, g) \<Rightarrow> c)"

definition wrong_password :: jsstring where
  "wrong_password = js ''wrong''"

text \<open>
  Values of the examples of saving, recovery and import: the storage after the example
  credentials were saved, the container and the storage that the recovery makes from the
  example random source, the artifact-only storage after a recovery that failed, the
  container that recovery would have written, an empty storage, and a storage whose
  \<^verbatim>\<open>encrypted_vault\<close> slot alone is written.
\<close>

definition saved_store :: storage where
  "saved_store = [MASTER_HASH_KEY \<mapsto> example_artifact, VAULT_STORAGE_KEY \<mapsto> version1_container]"




definition later_container :: jsstring where
  "later_container =
     (case encrypt example_platform empty_vault_text example_password
             (\<lambda>i. later_rng (16 + i)) of
        None \<Rightarrow> [] | Some (c, g) \<Rightarrow> c)"

definition empty_store :: storage where
  "empty_store = Map.empty"



section \<open>Base64 decodes what it encoded\<close>

lemma unat_of_nat_16: "m < 65536 \<Longrightarrow> unat (of_nat m :: 16 word) = m"
  by (simp add: unat_of_nat)

lemma unat_of_nat_8: "m < 256 \<Longrightarrow> unat (of_nat m :: 8 word) = m"
  by (simp add: unat_of_nat)

lemma unat_b64_char:
  "n < 64 \<Longrightarrow> unat (b64_char n) =
     (if n < 26 then 65 + n else if n < 52 then 71 + n else if n < 62 then n - 4
      else if n = 62 then 43 else 47)"
  by (simp add: b64_char_def unat_of_nat_16 del: of_nat_add of_nat_diff)

lemma b64_index_char: "n < 64 \<Longrightarrow> b64_index (b64_char n) = Some n"
  unfolding b64_index_def Let_def by (simp add: unat_b64_char) arith

lemma b64_char_not_pad: "n < 64 \<Longrightarrow> b64_char n \<noteq> 61"
proof
  assume n: "n < 64" and e: "b64_char n = 61"
  from e have "unat (b64_char n) = 61" by simp
  with n show False by (simp add: unat_b64_char split: if_splits)
qed

lemma b64_char_not_space: "n < 64 \<Longrightarrow> \<not> is_ascii_whitespace (b64_char n)"
proof
  assume n: "n < 64" and e: "is_ascii_whitespace (b64_char n)"
  from e have "unat (b64_char n) = 9 \<or> unat (b64_char n) = 10 \<or> unat (b64_char n) = 12
      \<or> unat (b64_char n) = 13 \<or> unat (b64_char n) = 32"
    by (auto simp: is_ascii_whitespace_def)
  with n show False by (simp add: unat_b64_char split: if_splits) arith
qed


lemma div_mult_add_small: "y < k \<Longrightarrow> (x * k + y) div k = (x::nat)"
  by simp

lemma mod_mult_add_small: "y < k \<Longrightarrow> (x * k + y) mod k = (y::nat)"
  by simp

lemma byte_div_bounds:
  "a < 256 \<Longrightarrow> a div 4 < 64" "a < 256 \<Longrightarrow> a div 16 < 16" "a < 256 \<Longrightarrow> a div 64 < (4::nat)"
  by simp_all

lemma sextet_bounds:
  fixes a b c :: nat
  assumes "a < 256" "b < 256" "c < 256"
  shows "a div 4 < 64" "(a mod 4) * 16 + b div 16 < 64" "(b mod 16) * 4 + c div 64 < 64"
    "c mod 64 < 64" "(b mod 16) * 4 < 64" "(a mod 4) * 16 < 64"
proof -
  have m: "a mod 4 < 4" "b mod 16 < 16" by simp_all
  have d: "b div 16 < 16" "c div 64 < 4" using assms by simp_all
  show "a div 4 < 64" using assms by simp
  show "(a mod 4) * 16 + b div 16 < 64" using m d by linarith
  show "(b mod 16) * 4 + c div 64 < 64" using m d by linarith
  show "c mod 64 < 64" by simp
  show "(b mod 16) * 4 < 64" using m by linarith
  show "(a mod 4) * 16 < 64" using m by linarith
qed

lemma b64_groups_bound:
  "\<forall>b \<in> set bs. b < 256 \<Longrightarrow> \<forall>p \<in> set (b64_groups bs). p < 64"
proof (induction bs rule: b64_groups.induct)
  case (1 a b c rest)
  then have "a < 256" "b < 256" "c < 256" by simp_all
  note s = sextet_bounds [OF this]
  from 1 have "\<forall>p \<in> set (b64_groups rest). p < 64" by simp
  with s show ?case by simp
next
  case (2 a b)
  then have "a < 256" "b < 256" by simp_all
  note s = sextet_bounds [OF this this(2)]
  then show ?case by simp
next
  case (3 a)
  then have "a < 256" by simp
  note s = sextet_bounds [OF this this this]
  then show ?case by simp
next
  case 4
  show ?case by simp
qed

lemma regroup_bytes:
  fixes a b c :: nat
  assumes "b < 256" "c < 256"
  shows "(a div 4) * 4 + ((a mod 4) * 16 + b div 16) div 16 = a"
    "(((a mod 4) * 16 + b div 16) mod 16) * 16 + ((b mod 16) * 4 + c div 64) div 4 = b"
    "(((b mod 16) * 4 + c div 64) mod 4) * 64 + c mod 64 = c"
    "(((a mod 4) * 16 + b div 16) mod 16) * 16 + ((b mod 16) * 4) div 4 = b"
    "(a div 4) * 4 + ((a mod 4) * 16) div 16 = a"
proof -
  have d: "b div 16 < 16" "c div 64 < 4" using assms by simp_all
  show "(a div 4) * 4 + ((a mod 4) * 16 + b div 16) div 16 = a"
    by (simp add: div_mult_add_small [OF d(1)])
  show "(((a mod 4) * 16 + b div 16) mod 16) * 16 + ((b mod 16) * 4 + c div 64) div 4 = b"
    using d by (simp add: div_mult_add_small [OF d(2)])
  show "(((b mod 16) * 4 + c div 64) mod 4) * 64 + c mod 64 = c"
    using d by simp
  show "(((a mod 4) * 16 + b div 16) mod 16) * 16 + ((b mod 16) * 4) div 4 = b"
    using d(1) by simp
  show "(a div 4) * 4 + ((a mod 4) * 16) div 16 = a"
    by simp
qed

lemma b64_bytes_groups:
  "\<forall>b \<in> set bs. b < 256 \<Longrightarrow> b64_bytes (b64_groups bs) = bs"
proof (induction bs rule: b64_groups.induct)
  case (1 a b c rest)
  then have r: "b64_bytes (b64_groups rest) = rest" by simp
  from 1 have "b < 256" "c < 256" by simp_all
  note g = regroup_bytes [OF this]
  show ?case by (simp only: b64_groups.simps b64_bytes.simps append_Cons append_Nil g r)
next
  case (2 a b)
  then have "b < 256" by simp
  note g = regroup_bytes [OF this this]
  show ?case by (simp only: b64_groups.simps b64_bytes.simps g)
next
  case (3 a)
  have "(a div 4) * 4 + ((a mod 4) * 16) div 16 = a" by simp
  then show ?case by (simp only: b64_groups.simps b64_bytes.simps)
next
  case 4
  show ?case by simp
qed

lemma length_b64_groups: "length (b64_groups bs) = (4 * length bs + 2) div 3"
  by (induction bs rule: b64_groups.induct) simp_all

lemma unat_byte_less: "unat (b::8 word) < 256"
  using unsigned_less [of b, where ?'a = nat] by simp

lemma unat_ucast_byte: "unat (ucast (b::8 word) :: 16 word) = unat b"
proof -
  have "unat b < 2 ^ 16" using unat_byte_less [of b] by simp
  then have "take_bit 16 (unat b) = unat b" by (simp only: take_bit_nat_eq_self)
  then show ?thesis by (simp add: unsigned_ucast_eq)
qed

lemma ucast_byte_le: "(ucast (b::8 word) :: 16 word) \<le> 0xFF"
  using unat_byte_less [of b] by (simp add: word_le_nat_alt unat_ucast_byte)

lemma ucast_ucast_byte: "(ucast (ucast (b::8 word) :: 16 word) :: 8 word) = b"
  by (simp add: ucast_up_ucast_id is_up)

lemma ucast_of_nat_unat_byte: "(ucast (of_nat (unat (b:: 8 word)) :: 16 word) :: 8 word) = b"
  by (simp add: ucast_ucast_byte)

lemma strip_padding_none:
  assumes "\<forall>c \<in> set body. c \<noteq> 61" and "length body mod 4 = 0"
  shows "strip_padding body = body"
proof (cases "rev body")
  case Nil
  then show ?thesis by (simp add: strip_padding_def)
next
  case (Cons a r)
  then have "a \<in> set body" by (metis list.set_intros(1) set_rev)
  with assms(1) have a: "a \<noteq> 61" by simp
  show ?thesis
    by (cases r) (simp_all add: strip_padding_def Cons a)
qed

lemma strip_padding_one:
  assumes "\<forall>c \<in> set body. c \<noteq> 61" and "length body mod 4 = 3"
  shows "strip_padding (body @ [61]) = body"
proof -
  from assms(2) have ne: "body \<noteq> []" by auto
  then obtain b r where rb: "rev body = b # r" by (cases "rev body") auto
  then have "b \<in> set body" by (metis list.set_intros(1) set_rev)
  with assms(1) have b: "b \<noteq> 61" by simp
  from rb have body: "body = rev (b # r)" by (metis rev_rev_ident)
  from assms(2) have l: "length (body @ [61]) mod 4 = 0" by (simp add: mod_Suc)
  show ?thesis
    unfolding strip_padding_def using l b by (simp add: rb) (simp add: body)
qed

lemma strip_padding_two:
  assumes "length body mod 4 = 2"
  shows "strip_padding (body @ [61, 61]) = body"
proof -
  from assms have l: "length (body @ [61, 61]) mod 4 = 0" by (simp add: mod_Suc)
  show ?thesis
    unfolding strip_padding_def using l by simp
qed

lemma those_map_inverse:
  "\<forall>x \<in> set xs. f (g x) = Some x \<Longrightarrow> those (map f (map g xs)) = Some xs"
  by (induction xs) simp_all

lemma length_b64_groups_mod:
  "length (b64_groups bs) mod 4 =
     (if length bs mod 3 = 0 then 0 else if length bs mod 3 = 1 then 2 else 3)"
  unfolding length_b64_groups by presburger

lemma strip_padding_encode:
  assumes "\<forall>b \<in> set bs. b < 256"
  shows "strip_padding (base64_encode bs) = map b64_char (b64_groups bs)"
proof -
  let ?body = "map b64_char (b64_groups bs)"
  have np: "\<forall>c \<in> set ?body. c \<noteq> 61"
    using b64_groups_bound [OF assms] by (auto simp: b64_char_not_pad)
  have len: "length ?body mod 4 =
     (if length bs mod 3 = 0 then 0 else if length bs mod 3 = 1 then 2 else 3)"
    by (simp add: length_b64_groups_mod)
  consider "length bs mod 3 = 0" | "length bs mod 3 = 1" | "length bs mod 3 = 2"
    by linarith
  then show ?thesis
  proof cases
    case 1
    with len have "length ?body mod 4 = 0" by simp
    from strip_padding_none [OF np this] 1 show ?thesis
      by (simp add: base64_encode_def)
  next
    case 2
    with len have "length ?body mod 4 = 2" by simp
    from strip_padding_two [OF this] 2 show ?thesis
      by (simp add: base64_encode_def numeral_2_eq_2)
  next
    case 3
    with len have "length ?body mod 4 = 3" by simp
    from strip_padding_one [OF np this] 3 show ?thesis
      by (simp add: base64_encode_def)
  qed
qed

lemma filter_whitespace_encode:
  assumes "\<forall>b \<in> set bs. b < 256"
  shows "filter (\<lambda>c. \<not> is_ascii_whitespace c) (base64_encode bs) = base64_encode bs"
proof -
  have "\<forall>c \<in> set (map b64_char (b64_groups bs)). \<not> is_ascii_whitespace c"
    using b64_groups_bound [OF assms] by (auto simp: b64_char_not_space)
  moreover have "\<not> is_ascii_whitespace 61" by (simp add: is_ascii_whitespace_def)
  ultimately have "\<forall>c \<in> set (base64_encode bs). \<not> is_ascii_whitespace c"
    by (auto simp: base64_encode_def)
  then show ?thesis by (simp add: filter_id_conv)
qed

lemma atob_base64_encode:
  assumes "\<forall>b \<in> set bs. b < 256"
  shows "atob (base64_encode bs) = Some (map of_nat bs)"
proof -
  have i: "those (map b64_index (map b64_char (b64_groups bs))) = Some (b64_groups bs)"
    using b64_groups_bound [OF assms] by (intro those_map_inverse) (simp add: b64_index_char)
  have l: "length (map b64_char (b64_groups bs)) mod 4 \<noteq> 1"
    by (simp add: length_b64_groups_mod)
  show ?thesis
    unfolding atob_def Let_def
    using l i
    by (simp only: filter_whitespace_encode [OF assms] strip_padding_encode [OF assms]
          b64_bytes_groups [OF assms] if_False option.map)
qed

lemma uint8ArrayToBase64_eq:
  "uint8ArrayToBase64 bs = Some (base64_encode (map unat bs))"
  by (simp add: uint8ArrayToBase64_def btoa_def list_all_iff ucast_byte_le unat_ucast_byte
        comp_def)

lemma base64_roundtrip:
  "base64ToUint8Array (base64_encode (map unat bs)) = Some bs"
proof -
  have "\<forall>b \<in> set (map unat bs). b < 256"
    by (simp add: unat_byte_less)
  from atob_base64_encode [OF this] show ?thesis
    by (simp add: base64ToUint8Array_def comp_def ucast_ucast_byte)
qed

section \<open>UTF-8 decodes what it encoded\<close>

declare utf8_decode.simps [simp del]

lemma lead_mod:
  "q < 32 \<Longrightarrow> (0xC0 + q) mod 32 = (q::nat)"
  "q < 16 \<Longrightarrow> (0xE0 + q) mod 16 = (q::nat)"
  "q < 8 \<Longrightarrow> (0xF0 + q) mod 8 = (q::nat)"
  "q < 64 \<Longrightarrow> (0x80 + q) mod 64 = (q::nat)"
  using mod_mult_add_small [of q 32 6] mod_mult_add_small [of q 16 14]
    mod_mult_add_small [of q 8 30] mod_mult_add_small [of q 64 2]
  by simp_all

lemma decode_ascii:
  assumes "unat b = c" and "c < 0x80"
  shows "utf8_decode 0 0 0 0x80 0xBF (b # rest) = c # utf8_decode 0 0 0 0x80 0xBF rest"
  using assms by (subst utf8_decode.simps) (simp add: Let_def)

lemma decode_lead2:
  assumes "unat b = 0xC0 + q" and "2 \<le> q" and "q < 32"
  shows "utf8_decode 0 0 0 0x80 0xBF (b # rest) = utf8_decode q 0 1 0x80 0xBF rest"
  using assms(2,3) by (subst utf8_decode.simps) (simp add: assms(1) lead_mod Let_def)

lemma decode_lead3:
  assumes "unat b = 0xE0 + q" and "q < 16"
  shows "utf8_decode 0 0 0 0x80 0xBF (b # rest)
           = utf8_decode q 0 2 (if q = 0 then 0xA0 else 0x80) (if q = 13 then 0x9F else 0xBF) rest"
  using assms(2) by (subst utf8_decode.simps) (simp add: assms(1) lead_mod Let_def)

lemma decode_lead4:
  assumes "unat b = 0xF0 + q" and "q \<le> 4"
  shows "utf8_decode 0 0 0 0x80 0xBF (b # rest)
           = utf8_decode q 0 3 (if q = 0 then 0x90 else 0x80) (if q = 4 then 0x8F else 0xBF) rest"
  using assms(2) by (subst utf8_decode.simps) (simp add: assms(1) lead_mod Let_def)

lemma decode_cont_more:
  assumes "unat b = 0x80 + r" and "r < 64" and "lo \<le> 0x80 + r" and "0x80 + r \<le> hi"
    and "needed \<noteq> 0" and "Suc seen \<noteq> needed"
  shows "utf8_decode cp seen needed lo hi (b # rest)
           = utf8_decode (cp * 64 + r) (Suc seen) needed 0x80 0xBF rest"
  using assms(2-) by (subst utf8_decode.simps) (simp add: assms(1) lead_mod Let_def)

lemma decode_cont_last:
  assumes "unat b = 0x80 + r" and "r < 64" and "lo \<le> 0x80 + r" and "0x80 + r \<le> hi"
    and "needed \<noteq> 0" and "Suc seen = needed"
  shows "utf8_decode cp seen needed lo hi (b # rest)
           = (cp * 64 + r) # utf8_decode 0 0 0 0x80 0xBF rest"
  using assms(2-) by (subst utf8_decode.simps) (simp add: assms(1) lead_mod Let_def)

lemma digits3: "(c div 4096 * 64 + c div 64 mod 64) * 64 + c mod 64 = (c::nat)"
proof -
  have "c div 4096 = c div 64 div 64" by (simp add: div_mult2_eq [symmetric])
  then show ?thesis by simp
qed

lemma digits4:
  "((c div 262144 * 64 + c div 4096 mod 64) * 64 + c div 64 mod 64) * 64 + c mod 64 = (c::nat)"
proof -
  have "c div 262144 = c div 4096 div 64" by (simp add: div_mult2_eq [symmetric])
  then have "(c div 262144 * 64 + c div 4096 mod 64) = c div 4096" by simp
  then show ?thesis by (simp only: digits3)
qed

lemma decode_encode_1:
  assumes "c < 0x80"
  shows "utf8_decode 0 0 0 0x80 0xBF (utf8_encode_scalar c @ rest)
           = c # utf8_decode 0 0 0 0x80 0xBF rest"
proof -
  have u: "unat (of_nat c :: byte) = c" using assms by (simp add: unat_of_nat_8)
  show ?thesis
    using assms decode_ascii [OF u assms] by (simp add: utf8_encode_scalar_def)
qed

lemma decode_encode_2:
  assumes "0x80 \<le> c" and "c < 0x800"
  shows "utf8_decode 0 0 0 0x80 0xBF (utf8_encode_scalar c @ rest)
           = c # utf8_decode 0 0 0 0x80 0xBF rest"
proof -
  define q where "q = c div 64"
  define r where "r = c mod 64"
  have c: "q * 64 + r = c" by (simp add: q_def r_def)
  have r: "r < 64" by (simp add: r_def)
  have q: "2 \<le> q" "q < 32" using assms c r by linarith+
  have u1: "unat (of_nat (0xC0 + q) :: byte) = 0xC0 + q"
    using q by (intro unat_of_nat_8) simp
  have u2: "unat (of_nat (0x80 + r) :: byte) = 0x80 + r"
    using r by (intro unat_of_nat_8) simp
  have e: "utf8_encode_scalar c = [of_nat (0xC0 + q), of_nat (0x80 + r)]"
    using assms unfolding utf8_encode_scalar_def q_def r_def by simp
  have "utf8_decode 0 0 0 0x80 0xBF ([of_nat (0xC0 + q), of_nat (0x80 + r)] @ rest)
          = utf8_decode q 0 1 0x80 0xBF (of_nat (0x80 + r) # rest)"
    using decode_lead2 [OF u1 q] by simp
  also have "\<dots> = (q * 64 + r) # utf8_decode 0 0 0 0x80 0xBF rest"
    by (rule decode_cont_last [OF u2 r]) (use r in simp_all)
  finally show ?thesis unfolding e c .
qed

lemma decode_encode_3:
  assumes "0x800 \<le> c" and "c < 0x10000" and "c < 0xD800 \<or> 0xDFFF < c"
  shows "utf8_decode 0 0 0 0x80 0xBF (utf8_encode_scalar c @ rest)
           = c # utf8_decode 0 0 0 0x80 0xBF rest"
proof -
  define a where "a = c div 4096"
  define b where "b = c div 64 mod 64"
  define r where "r = c mod 64"
  have c: "(a * 64 + b) * 64 + r = c" unfolding a_def b_def r_def by (rule digits3)
  have r: "r < 64" by (simp add: r_def)
  have b: "b < 64" by (simp add: b_def)
  have x: "a * 4096 + b * 64 + r = c" using c by (simp add: algebra_simps)
  have a: "a < 16" using assms(2) x by linarith
  have lo: "a = 0 \<Longrightarrow> 32 \<le> b" using assms(1) x r by linarith
  have hi: "a = 13 \<Longrightarrow> b < 32" using assms(2,3) x r b by linarith
  have u1: "unat (of_nat (0xE0 + a) :: byte) = 0xE0 + a"
    using a by (intro unat_of_nat_8) simp
  have u2: "unat (of_nat (0x80 + b) :: byte) = 0x80 + b"
    using b by (intro unat_of_nat_8) simp
  have u3: "unat (of_nat (0x80 + r) :: byte) = 0x80 + r"
    using r by (intro unat_of_nat_8) simp
  have e: "utf8_encode_scalar c = [of_nat (0xE0 + a), of_nat (0x80 + b), of_nat (0x80 + r)]"
    using assms unfolding utf8_encode_scalar_def a_def b_def r_def by simp
  have l1: "(if a = 0 then 0xA0 else 0x80) \<le> 0x80 + b" using lo by auto
  have h1: "0x80 + b \<le> (if a = 13 then 0x9F else (0xBF::nat))" using hi b by auto
  have "utf8_decode 0 0 0 0x80 0xBF
          ([of_nat (0xE0 + a), of_nat (0x80 + b), of_nat (0x80 + r)] @ rest)
          = utf8_decode a 0 2 (if a = 0 then 0xA0 else 0x80) (if a = 13 then 0x9F else 0xBF)
              (of_nat (0x80 + b) # of_nat (0x80 + r) # rest)"
    using decode_lead3 [OF u1 a] by simp
  also have "\<dots> = utf8_decode (a * 64 + b) (Suc 0) 2 0x80 0xBF (of_nat (0x80 + r) # rest)"
    by (rule decode_cont_more [OF u2 b l1 h1]) simp_all
  also have "\<dots> = ((a * 64 + b) * 64 + r) # utf8_decode 0 0 0 0x80 0xBF rest"
    by (rule decode_cont_last [OF u3 r]) (use r in simp_all)
  finally show ?thesis unfolding e c .
qed

lemma decode_encode_4:
  assumes "0x10000 \<le> c" and "c < 0x110000"
  shows "utf8_decode 0 0 0 0x80 0xBF (utf8_encode_scalar c @ rest)
           = c # utf8_decode 0 0 0 0x80 0xBF rest"
proof -
  define z where "z = c div 262144"
  define a where "a = c div 4096 mod 64"
  define b where "b = c div 64 mod 64"
  define r where "r = c mod 64"
  have c: "((z * 64 + a) * 64 + b) * 64 + r = c" unfolding z_def a_def b_def r_def by (rule digits4)
  have r: "r < 64" by (simp add: r_def)
  have b: "b < 64" by (simp add: b_def)
  have a: "a < 64" by (simp add: a_def)
  have x: "z * 262144 + a * 4096 + b * 64 + r = c" using c by (simp add: algebra_simps)
  have z: "z \<le> 4" using assms(2) x by linarith
  have lo: "z = 0 \<Longrightarrow> 16 \<le> a" using assms(1) x r b by linarith
  have hi: "z = 4 \<Longrightarrow> a < 16" using assms(2) x by linarith
  have u1: "unat (of_nat (0xF0 + z) :: byte) = 0xF0 + z"
    using z by (intro unat_of_nat_8) simp
  have u2: "unat (of_nat (0x80 + a) :: byte) = 0x80 + a"
    using a by (intro unat_of_nat_8) simp
  have u3: "unat (of_nat (0x80 + b) :: byte) = 0x80 + b"
    using b by (intro unat_of_nat_8) simp
  have u4: "unat (of_nat (0x80 + r) :: byte) = 0x80 + r"
    using r by (intro unat_of_nat_8) simp
  have e: "utf8_encode_scalar c
             = [of_nat (0xF0 + z), of_nat (0x80 + a), of_nat (0x80 + b), of_nat (0x80 + r)]"
    using assms unfolding utf8_encode_scalar_def z_def a_def b_def r_def by simp
  have l1: "(if z = 0 then 0x90 else 0x80) \<le> 0x80 + a" using lo by auto
  have h1: "0x80 + a \<le> (if z = 4 then 0x8F else (0xBF::nat))" using hi a by auto
  have "utf8_decode 0 0 0 0x80 0xBF
          ([of_nat (0xF0 + z), of_nat (0x80 + a), of_nat (0x80 + b), of_nat (0x80 + r)] @ rest)
          = utf8_decode z 0 3 (if z = 0 then 0x90 else 0x80) (if z = 4 then 0x8F else 0xBF)
              (of_nat (0x80 + a) # of_nat (0x80 + b) # of_nat (0x80 + r) # rest)"
    using decode_lead4 [OF u1 z] by simp
  also have "\<dots> = utf8_decode (z * 64 + a) (Suc 0) 3 0x80 0xBF
                       (of_nat (0x80 + b) # of_nat (0x80 + r) # rest)"
    by (rule decode_cont_more [OF u2 a l1 h1]) simp_all
  also have "\<dots> = utf8_decode ((z * 64 + a) * 64 + b) (Suc (Suc 0)) 3 0x80 0xBF
                       (of_nat (0x80 + r) # rest)"
    by (rule decode_cont_more [OF u3 b]) (use b in simp_all)
  also have "\<dots> = (((z * 64 + a) * 64 + b) * 64 + r) # utf8_decode 0 0 0 0x80 0xBF rest"
    by (rule decode_cont_last [OF u4 r]) (use r in simp_all)
  finally show ?thesis unfolding e c .
qed

lemma decode_encode_scalar:
  assumes "is_scalar c"
  shows "utf8_decode 0 0 0 0x80 0xBF (utf8_encode_scalar c @ rest)
           = c # utf8_decode 0 0 0 0x80 0xBF rest"
proof -
  consider "c < 0x80" | "0x80 \<le> c" "c < 0x800" | "0x800 \<le> c" "c < 0x10000"
    | "0x10000 \<le> c" by linarith
  then show ?thesis
  proof cases
    case 1 then show ?thesis by (rule decode_encode_1)
  next
    case 2 then show ?thesis by (rule decode_encode_2)
  next
    case 3
    with assms show ?thesis by (intro decode_encode_3) (simp_all add: is_scalar_def)
  next
    case 4
    with assms show ?thesis by (intro decode_encode_4) (simp_all add: is_scalar_def)
  qed
qed

lemma decode_encode_scalars:
  "\<forall>c \<in> set cs. is_scalar c \<Longrightarrow>
     utf8_decode 0 0 0 0x80 0xBF (concat (map utf8_encode_scalar cs)) = cs"
proof (induction cs)
  case Nil
  show ?case by (simp add: utf8_decode.simps)
next
  case (Cons c cs)
  then show ?case by (simp add: decode_encode_scalar)
qed

lemma unat_unit_less: "unat (u :: 16 word) < 65536"
  using unsigned_less [of u, where ?'a = nat] by simp

lemma pair_is_scalar:
  assumes "is_high_surrogate u" and "is_low_surrogate v"
  shows "is_scalar (0x10000 + (unat u - 0xD800) * 0x400 + (unat v - 0xDC00))"
  using assms unfolding is_high_surrogate_def is_low_surrogate_def is_scalar_def by linarith

lemma unit_is_scalar:
  assumes "\<not> is_high_surrogate u" and "\<not> is_low_surrogate u"
  shows "is_scalar (unat u)"
  using assms unat_unit_less [of u]
  unfolding is_high_surrogate_def is_low_surrogate_def is_scalar_def by linarith

lemma replacement_is_scalar: "is_scalar 0xFFFD"
  by (simp add: is_scalar_def)

lemma utf16_to_scalars_scalar: "\<forall>c \<in> set (utf16_to_scalars s). is_scalar c"
proof (induction s rule: utf16_to_scalars.induct)
  case 1
  show ?case by simp
next
  case (2 u)
  show ?case by (simp add: replacement_is_scalar unit_is_scalar)
next
  case (3 u v rest)
  then show ?case
    by (auto simp: replacement_is_scalar unit_is_scalar pair_is_scalar)
qed

lemma scalar_to_utf16_unit:
  "scalar_to_utf16 (unat (u :: 16 word)) = [u]"
  using unat_unit_less [of u] by (simp add: scalar_to_utf16_def)

lemma scalar_to_utf16_pair:
  assumes "is_high_surrogate u" and "is_low_surrogate v"
  shows "scalar_to_utf16 (0x10000 + (unat u - 0xD800) * 0x400 + (unat v - 0xDC00)) = [u, v]"
proof -
  define h where "h = unat u - 0xD800"
  define l where "l = unat v - 0xDC00"
  have hu: "unat u = 0xD800 + h"
    using assms(1) unfolding h_def is_high_surrogate_def by linarith
  have lv: "unat v = 0xDC00 + l"
    using assms(2) unfolding l_def is_low_surrogate_def by linarith
  have l: "l < 0x400"
    using assms(2) unfolding l_def is_low_surrogate_def by linarith
  have d: "(h * 0x400 + l) div 0x400 = h" using l by (rule div_mult_add_small)
  have m: "(h * 0x400 + l) mod 0x400 = l" using l by (rule mod_mult_add_small)
  have "scalar_to_utf16 (0x10000 + h * 0x400 + l)
          = [of_nat (0xD800 + h), of_nat (0xDC00 + l)]"
    unfolding scalar_to_utf16_def using d m by (simp add: add.assoc del: of_nat_add)
  also have "\<dots> = [of_nat (unat u), of_nat (unat v)]"
    by (simp only: hu lv)
  also have "\<dots> = [u, v]" by simp
  finally show ?thesis unfolding h_def l_def .
qed

lemma utf16_roundtrip:
  "well_formed_utf16 s \<Longrightarrow> concat (map scalar_to_utf16 (utf16_to_scalars s)) = s"
proof (induction s rule: utf16_to_scalars.induct)
  case 1
  show ?case by simp
next
  case (2 u)
  then show ?case by (simp add: scalar_to_utf16_unit)
next
  case (3 u v rest)
  show ?case
  proof (cases "is_high_surrogate u")
    case True
    with "3.prems" have lv: "is_low_surrogate v" and wf: "well_formed_utf16 rest" by simp_all
    from "3.IH"(1) True lv wf
    have "concat (map scalar_to_utf16 (utf16_to_scalars rest)) = rest" by simp
    with True lv show ?thesis by (simp add: scalar_to_utf16_pair)
  next
    case False
    with "3.prems" have nl: "\<not> is_low_surrogate u" and wf: "well_formed_utf16 (v # rest)"
      by simp_all
    from "3.IH"(2,3) False nl wf
    have "concat (map scalar_to_utf16 (utf16_to_scalars (v # rest))) = v # rest" by simp
    with False nl show ?thesis by (simp add: scalar_to_utf16_unit)
  qed
qed

lemma unat_bom: "(unat (u :: 16 word) = 0xFEFF) = (u = 0xFEFF)"
proof
  assume "unat u = 0xFEFF"
  then have "(of_nat (unat u) :: 16 word) = of_nat 0xFEFF" by (simp only:)
  then show "u = 0xFEFF" by simp
next
  assume "u = 0xFEFF"
  then show "unat u = 0xFEFF" by simp
qed

lemma first_scalar_not_bom:
  assumes "\<not> starts_with_bom s"
  shows "strip_bom (utf16_to_scalars s) = utf16_to_scalars s"
proof (cases s rule: utf16_to_scalars.cases)
  case 1
  then show ?thesis by (simp add: strip_bom_def)
next
  case (2 u)
  with assms have "unat u \<noteq> 0xFEFF" by (simp add: starts_with_bom_def unat_bom)
  with 2 show ?thesis by (simp add: strip_bom_def)
next
  case (3 u v rest)
  with assms have n: "unat u \<noteq> 0xFEFF" by (simp add: starts_with_bom_def unat_bom)
  from 3 n show ?thesis by (simp add: strip_bom_def)
qed

lemma text_roundtrip:
  assumes "well_formed_utf16 s" and "\<not> starts_with_bom s"
  shows "TextDecoder_decode (TextEncoder_encode s) = s"
  unfolding TextDecoder_decode_def TextEncoder_encode_def
  by (simp only: decode_encode_scalars [OF utf16_to_scalars_scalar]
        first_scalar_not_bom [OF assms(2)] utf16_roundtrip [OF assms(1)])

lemma bom_is_dropped: "TextDecoder_decode (TextEncoder_encode [0xFEFF, 0x61]) = [0x61]"
  by (simp add: TextDecoder_decode_def TextEncoder_encode_def utf8_encode_scalar_def
        is_high_surrogate_def is_low_surrogate_def utf8_decode.simps strip_bom_def
        scalar_to_utf16_def Let_def)

lemma lone_surrogate_is_replaced:
  "TextDecoder_decode (TextEncoder_encode [0xD800]) = [0xFFFD]"
  by (simp add: TextDecoder_decode_def TextEncoder_encode_def utf8_encode_scalar_def
        is_high_surrogate_def is_low_surrogate_def utf8_decode.simps strip_bom_def
        scalar_to_utf16_def Let_def)

section \<open>Facts about the example platform\<close>

lemmas example_json_defs =
  example_parse_def example_documents_def js_def quote_string_def example_num_to_string_def
  credential_object_def example_credential_def unchecked_import_doc_def partial_import_doc_def
  torn_import_doc_def refused_import_doc_def



lemma example_parse_unchecked:
  "json_parse example_platform unchecked_import_text = Some unchecked_import_doc"
  by (simp add: example_platform_def unchecked_import_text_def example_json_defs)

lemma unchecked_import_members:
  "get_member unchecked_import_doc (js ''encrypted'') = Some (Val (JStr (js ''!!'')))"
  "get_member unchecked_import_doc (js ''hash'') = Some (Val (JStr (js ''??'')))"
  by (simp_all add: unchecked_import_doc_def js_def)

lemma storage_keys_distinct: "VAULT_STORAGE_KEY \<noteq> MASTER_HASH_KEY"
  by (simp add: VAULT_STORAGE_KEY_def MASTER_HASH_KEY_def js_def)

lemma hash_only_store_items:
  "getItem hash_only_store MASTER_HASH_KEY = Some example_artifact"
  "getItem hash_only_store VAULT_STORAGE_KEY = None"
  using storage_keys_distinct by (simp_all add: getItem_def hash_only_store_def)

lemma atob_question_marks: "atob (js ''??'') = None"
  by (simp add: atob_def js_def is_ascii_whitespace_def strip_padding_def b64_index_def)

section \<open>Closed forms of the crypto functions\<close>

lemma length_getRandomValues: "length (fst (getRandomValues n g)) = n"
  by (simp add: getRandomValues_def)

lemma typed_set_first:
  "typed_set (new_Uint8Array (length a + n)) a 0 = Some (a @ new_Uint8Array n)"
  by (simp add: typed_set_def new_Uint8Array_def replicate_add)

lemma typed_set_second:
  "typed_set (a @ new_Uint8Array (length b + n)) b (length a) = Some (a @ b @ new_Uint8Array n)"
  by (simp add: typed_set_def new_Uint8Array_def replicate_add)

lemma typed_set_last:
  "typed_set (a @ new_Uint8Array (length b)) b (length a) = Some (a @ b)"
  using typed_set_second [of a b 0] by (simp add: new_Uint8Array_def)

lemma map_shift_upt: "map (\<lambda>i. g (n + i)) [0..<m] = map g [n..<n + m]"
proof -
  have "map g (map (\<lambda>i. i + n) [0..<m]) = map g [n..<m + n]"
    by (simp only: map_add_upt)
  then show ?thesis
    by (simp add: comp_def add.commute)
qed

lemma getRandomValues_shift:
  "getRandomValues m (\<lambda>i. g (n + i)) = (map g [n..<n + m], \<lambda>i. g (n + m + i))"
  by (simp only: getRandomValues_def map_shift_upt add.assoc add.commute [of m])

lemma random_draws:
  "getRandomValues SALT_LENGTH g = (map g [0..<16], \<lambda>i. g (16 + i))"
  "getRandomValues IV_LENGTH (\<lambda>i. g (16 + i)) = (map g [16..<28], \<lambda>i. g (28 + i))"
proof -
  show "getRandomValues SALT_LENGTH g = (map g [0..<16], \<lambda>i. g (16 + i))"
    by (simp add: getRandomValues_def SALT_LENGTH_def)
  show "getRandomValues IV_LENGTH (\<lambda>i. g (16 + i)) = (map g [16..<28], \<lambda>i. g (28 + i))"
    using getRandomValues_shift [of 12 g 16] by (simp add: IV_LENGTH_def)
qed

lemma assemble_three:
  assumes "length a = la" and "length b = lb"
  shows "do { c1 \<leftarrow> typed_set (new_Uint8Array (la + lb + length c)) a 0;
              c2 \<leftarrow> typed_set c1 b la;
              c3 \<leftarrow> typed_set c2 c (la + lb);
              f c3 } = f (a @ b @ c)"
proof -
  have s1: "typed_set (new_Uint8Array (la + lb + length c)) a 0
              = Some (a @ new_Uint8Array (length b + length c))"
    using typed_set_first [of a "lb + length c"] assms by (simp add: add.assoc)
  have s2: "typed_set (a @ new_Uint8Array (length b + length c)) b la
              = Some (a @ b @ new_Uint8Array (length c))"
    using typed_set_second [of a b "length c"] assms by simp
  have s3: "typed_set (a @ b @ new_Uint8Array (length c)) c (la + lb) = Some (a @ b @ c)"
    using typed_set_last [of "a @ b" c] assms by simp
  show ?thesis
    by (simp only: s1 s2 s3 bind.bind_lunit)
qed

lemma assemble_two:
  assumes "length a = la"
  shows "do { c1 \<leftarrow> typed_set (new_Uint8Array (la + length b)) a 0;
              c2 \<leftarrow> typed_set c1 b la;
              f c2 } = f (a @ b)"
proof -
  have s1: "typed_set (new_Uint8Array (la + length b)) a 0 = Some (a @ new_Uint8Array (length b))"
    using typed_set_first [of a "length b"] assms by simp
  have s2: "typed_set (a @ new_Uint8Array (length b)) b la = Some (a @ b)"
    using typed_set_last [of a b] assms by simp
  show ?thesis
    by (simp only: s1 s2 bind.bind_lunit)
qed

lemma encrypt_eq:
  "encrypt pf plaintext pw g =
     Some (base64_encode (map unat
             (map g [0..<16] @ map g [16..<28] @
              aes_gcm_encrypt pf (raw_key (deriveKey pf pw (map g [0..<16]))) (map g [16..<28])
                (stringToBuffer plaintext))),
           \<lambda>i. g (28 + i))"
proof -
  define salt where "salt = map g [0..<16]"
  define iv where "iv = map g [16..<28]"
  have l: "length salt = SALT_LENGTH" "length iv = IV_LENGTH"
    by (simp_all add: salt_def iv_def SALT_LENGTH_def IV_LENGTH_def)
  show ?thesis
    unfolding encrypt_def random_draws Let_def prod.case subtle_encrypt_def
      salt_def [symmetric] iv_def [symmetric]
    by (simp only: assemble_three [OF l] uint8ArrayToBase64_eq bind.bind_lunit)
qed

lemma hashPassword_eq:
  "hashPassword pf pw g =
     Some (base64_encode (map unat
             (map g [0..<16] @
              pbkdf2_sha256 pf (stringToBuffer pw) (map g [0..<16]) KEY_ITERATIONS 256)),
           \<lambda>i. g (16 + i))"
proof -
  define salt where "salt = map g [0..<16]"
  have l: "length salt = SALT_LENGTH"
    by (simp add: salt_def SALT_LENGTH_def)
  show ?thesis
    unfolding hashPassword_def random_draws Let_def prod.case subtle_deriveBits_def
      subtle_importKey_def crypto_key.sel salt_def [symmetric]
    by (simp only: assemble_two [OF l] uint8ArrayToBase64_eq bind.bind_lunit)
qed

lemma raw_key_deriveKey:
  "raw_key (deriveKey pf pw salt) = pbkdf2_sha256 pf (stringToBuffer pw) salt KEY_ITERATIONS 256"
  by (simp add: deriveKey_def subtle_deriveKey_def subtle_deriveBits_def subtle_importKey_def)

lemma slice_prefix: "length a = n \<Longrightarrow> slice_between (a @ b) 0 n = a"
  by (simp add: slice_between_def)

lemma slice_middle: "length a = n \<Longrightarrow> length b = m \<Longrightarrow> slice_between (a @ b @ c) n (n + m) = b"
  by (simp add: slice_between_def)

lemma slice_from_suffix: "length a = n \<Longrightarrow> slice_from (a @ b) n = b"
  by (simp add: slice_from_def)

lemma slice_take_drop:
  "slice_between xs 0 n = take n xs" "slice_between xs n (n + m) = take m (drop n xs)" "slice_from xs n = drop n xs"
  by (simp_all add: slice_between_def slice_from_def min_def take_all)

declare compare_bits.simps [simp del]

lemma compare_bits_steps:
  assumes "length storedBits = length newBits" and "i \<le> length storedBits"
  shows "compare_bits storedBits newBits i =
     (let k = length (takeWhile (\<lambda>(a, b). a = b) (zip (drop i storedBits) (drop i newBits)))
      in if i + k = length storedBits then (True, length storedBits) else (False, Suc (i + k)))"
  using assms
proof (induction storedBits newBits i rule: compare_bits.induct)
  case (1 storedBits newBits i)
  show ?case
  proof (cases "i < length storedBits")
    case False
    with 1 have "i = length storedBits" by simp
    then show ?thesis
      by (subst compare_bits.simps) simp
  next
    case True
    with 1 have n: "i < length newBits" by simp
    have ds: "drop i storedBits = storedBits ! i # drop (Suc i) storedBits"
      using True by (simp add: Cons_nth_drop_Suc)
    have dn: "drop i newBits = newBits ! i # drop (Suc i) newBits"
      using n by (simp add: Cons_nth_drop_Suc)
    show ?thesis
    proof (cases "storedBits ! i = newBits ! i")
      case False
      then show ?thesis
        using True n
        by (subst compare_bits.simps) (simp add: typed_get_def ds dn Let_def)
    next
      case eq: True
      have g: "typed_get storedBits i = typed_get newBits i"
        using True n eq by (simp add: typed_get_def)
      have ih: "compare_bits storedBits newBits (Suc i) =
         (let k = length (takeWhile (\<lambda>(a, b). a = b)
                     (zip (drop (Suc i) storedBits) (drop (Suc i) newBits)))
          in if Suc i + k = length storedBits then (True, length storedBits)
             else (False, Suc (Suc i + k)))"
        using "1.IH" [OF True] g "1.prems" True by simp
      show ?thesis
        using True eq
        by (subst compare_bits.simps) (simp add: g ih ds dn Let_def)
    qed
  qed
qed

lemma takeWhile_zip_same:
  "length (takeWhile (\<lambda>(a, b). a = b) (zip xs xs)) = length xs"
  by (induction xs) simp_all

lemma takeWhile_zip_eq:
  "length xs = length ys \<Longrightarrow>
     (length (takeWhile (\<lambda>(a, b). a = b) (zip xs ys)) = length xs) = (xs = ys)"
proof (induction xs arbitrary: ys)
  case Nil
  then show ?case by simp
next
  case (Cons x xs)
  then obtain y ys' where ys: "ys = y # ys'" by (cases ys) auto
  with Cons show ?case by auto
qed

lemma compare_bits_same: "compare_bits bits bits 0 = (True, length bits)"
  using compare_bits_steps [of bits bits 0] by (simp add: takeWhile_zip_same)

lemma verify_own_hash:
  assumes "hashPassword pf pw g = Some (h, g1)"
  shows "verifyPassword pf pw h"
proof -
  define salt where "salt = map g [0..<16]"
  define bits where "bits = pbkdf2_sha256 pf (stringToBuffer pw) salt KEY_ITERATIONS 256"
  have l: "length salt = SALT_LENGTH" by (simp add: salt_def SALT_LENGTH_def)
  from assms have h: "h = base64_encode (map unat (salt @ bits))"
    by (simp add: hashPassword_eq salt_def bits_def)
  show ?thesis
    unfolding verifyPassword_def h base64_roundtrip option.case Let_def
      subtle_deriveBits_def subtle_importKey_def crypto_key.sel
    by (simp add: slice_prefix [OF l] slice_from_suffix [OF l] bits_def [symmetric]
          compare_bits_same)
qed

lemma decrypt_unfold:
  "decrypt pf text pw =
     (case base64ToUint8Array text of
        None \<Rightarrow> None
      | Some b \<Rightarrow>
          map_option bufferToString
            (aes_gcm_decrypt pf (raw_key (deriveKey pf pw (take 16 b)))
               (take 12 (drop 16 b)) (drop 28 b)))"
  by (simp add: decrypt_def subtle_decrypt_def SALT_LENGTH_def IV_LENGTH_def
        slice_take_drop(1) slice_take_drop(2) [of _ 16 12, simplified] slice_take_drop(3)
      split: option.splits bind_splits)

section \<open>Password verification\<close>

text \<open>
  The comparison loop does not take the same number of steps for every mismatch: with
  the first difference at index 0 it evaluates one comparison, with the first difference
  at index 1 it evaluates two.
\<close>

theorem compare_bits_short_circuit_counterexample:
  "\<not> (snd (compare_bits [1, 0] [0, 0] 0) = snd (compare_bits [0, 1] [0, 0] 0))"
proof -
  have a: "compare_bits [1, 0] [0, 0] 0 = (False, 1)"
    by (subst compare_bits.simps) (simp add: typed_get_def)
  have b: "compare_bits [0, 1] [0, 0] 0 = (False, 2)"
    by (subst compare_bits.simps, simp add: typed_get_def, subst compare_bits.simps,
        simp add: typed_get_def)
  show ?thesis by (simp add: a b)
qed

text \<open>
  Claim C2, amended. For arrays of equal length, the comparison loop of \<^verbatim>\<open>verifyPassword\<close>
  returns \<^verbatim>\<open>true\<close> after comparing every byte when the arrays are equal, and otherwise
  returns \<^verbatim>\<open>false\<close> at the first index where they differ: the number of comparisons is
  that index plus one, so it depends on where the first mismatch is.
\<close>

theorem compare_bits_stops_at_first_mismatch:
  assumes "length storedBits = length newBits"
  shows "compare_bits storedBits newBits 0 =
     (if storedBits = newBits then (True, length storedBits)
      else (False, Suc (length (takeWhile (\<lambda>(a, b). a = b) (zip storedBits newBits)))))"
  using compare_bits_steps [OF assms, of 0] takeWhile_zip_eq [OF assms]
  by (simp add: Let_def)

theorem compare_bits_stops_at_first_mismatch_witness:
  "length [7, 7, 1, 7 :: byte] = length [7, 7, 2, 9 :: byte] \<and>
   compare_bits [7, 7, 1, 7] [7, 7, 2, 9] 0 = (False, 3)"
  using compare_bits_stops_at_first_mismatch [of "[7, 7, 1, 7]" "[7, 7, 2, 9]"]
  by simp

lemma container_parts:
  assumes "encrypt pf plaintext pw g = Some (c, g')"
  shows "base64ToUint8Array c =
           Some (map g [0..<16] @ map g [16..<28] @
                 aes_gcm_encrypt pf (raw_key (deriveKey pf pw (map g [0..<16])))
                   (map g [16..<28]) (stringToBuffer plaintext))"
    and "g' = (\<lambda>i. g (28 + i))"
proof -
  from assms have e: "c = base64_encode (map unat
      (map g [0..<16] @ map g [16..<28] @
       aes_gcm_encrypt pf (raw_key (deriveKey pf pw (map g [0..<16])))
         (map g [16..<28]) (stringToBuffer plaintext)))"
    and g: "g' = (\<lambda>i. g (28 + i))"
    unfolding encrypt_eq by (simp_all only: option.inject prod.inject)
  show "base64ToUint8Array c =
           Some (map g [0..<16] @ map g [16..<28] @
                 aes_gcm_encrypt pf (raw_key (deriveKey pf pw (map g [0..<16])))
                   (map g [16..<28]) (stringToBuffer plaintext))"
    unfolding e by (rule base64_roundtrip)
  show "g' = (\<lambda>i. g (28 + i))" by (rule g)
qed

lemma container_fields:
  assumes "encrypt pf plaintext pw g = Some (c, g')"
  shows "container_salt c = map g [0..<16]"
    and "container_iv c = map g [16..<28]"
    and "container_data c =
           aes_gcm_encrypt pf (raw_key (deriveKey pf pw (map g [0..<16]))) (map g [16..<28])
             (stringToBuffer plaintext)"
proof -
  define salt where "salt = map g [0..<16]"
  define iv where "iv = map g [16..<28]"
  have l: "length salt = SALT_LENGTH" "length iv = IV_LENGTH"
    by (simp_all add: salt_def iv_def SALT_LENGTH_def IV_LENGTH_def)
  have l2: "length (salt @ iv) = SALT_LENGTH + IV_LENGTH"
    using l by simp
  note p = container_parts(1) [OF assms, folded salt_def iv_def]
  show "container_salt c = map g [0..<16]"
    unfolding container_salt_def p option.case salt_def [symmetric]
    by (rule slice_prefix [OF l(1)])
  show "container_iv c = map g [16..<28]"
    unfolding container_iv_def p option.case iv_def [symmetric]
    by (rule slice_middle [OF l])
  show "container_data c =
           aes_gcm_encrypt pf (raw_key (deriveKey pf pw (map g [0..<16]))) (map g [16..<28])
             (stringToBuffer plaintext)"
    unfolding container_data_def p option.case salt_def [symmetric] iv_def [symmetric]
    using slice_from_suffix [OF l2] by simp
qed

section \<open>The container\<close>

text \<open>
  Claim C7. The text that \<^verbatim>\<open>encrypt\<close> returns decodes to bytes whose first 16 are the
  salt that was drawn, whose next 12 are the nonce that was drawn, and whose rest, from
  byte 28 on, is what the cipher returned (ciphertext and tag) for that nonce and the key
  derived from that salt. \<^verbatim>\<open>decrypt\<close> decodes its input and cuts it at the same offsets,
  16 and 28, and derives the key from the first part.
\<close>

theorem container_layout:
  assumes "encrypt pf plaintext pw g = Some (c, g')"
  shows "(\<exists>combined.
           base64ToUint8Array c = Some combined \<and>
           take 16 combined = fst (getRandomValues SALT_LENGTH g) \<and>
           take 12 (drop 16 combined)
             = fst (getRandomValues IV_LENGTH (snd (getRandomValues SALT_LENGTH g))) \<and>
           drop 28 combined
             = subtle_encrypt pf (take 12 (drop 16 combined))
                 (deriveKey pf pw (take 16 combined)) (stringToBuffer plaintext)) \<and>
         (\<forall>text. decrypt pf text pw =
           (case base64ToUint8Array text of
              None \<Rightarrow> None
            | Some b \<Rightarrow>
                map_option bufferToString
                  (subtle_decrypt pf (take 12 (drop 16 b)) (deriveKey pf pw (take 16 b))
                     (drop 28 b))))"
proof -
  define salt where "salt = map g [0..<16]"
  define iv where "iv = map g [16..<28]"
  have l: "length salt = 16" "length iv = 12"
    by (simp_all add: salt_def iv_def)
  note p = container_parts(1) [OF assms, folded salt_def iv_def]
  have a: "\<exists>combined.
           base64ToUint8Array c = Some combined \<and>
           take 16 combined = fst (getRandomValues SALT_LENGTH g) \<and>
           take 12 (drop 16 combined)
             = fst (getRandomValues IV_LENGTH (snd (getRandomValues SALT_LENGTH g))) \<and>
           drop 28 combined
             = subtle_encrypt pf (take 12 (drop 16 combined))
                 (deriveKey pf pw (take 16 combined)) (stringToBuffer plaintext)"
    unfolding p random_draws fst_conv snd_conv salt_def [symmetric] iv_def [symmetric]
    using l by (simp add: subtle_encrypt_def)
  have b: "\<forall>text. decrypt pf text pw =
           (case base64ToUint8Array text of
              None \<Rightarrow> None
            | Some b \<Rightarrow>
                map_option bufferToString
                  (subtle_decrypt pf (take 12 (drop 16 b)) (deriveKey pf pw (take 16 b))
                     (drop 28 b)))"
    unfolding subtle_decrypt_def by (rule allI) (rule decrypt_unfold)
  from a b show ?thesis by (rule conjI)
qed

lemma example_container_sealed:
  "encrypt example_platform empty_vault_text example_password example_rng
     = Some (example_container, \<lambda>i. example_rng (28 + i))"
  by (simp only: example_container_def encrypt_eq option.case prod.case)

lemma example_salt:
  "map example_rng [0..<16] = [3, 10, 17, 24, 31, 38, 45, 52, 59, 66, 73, 80, 87, 94, 101, 108]"
  by code_simp

lemma example_iv:
  "map example_rng [16..<28] = [115, 122, 129, 136, 143, 150, 157, 164, 171, 178, 185, 192]"
  by code_simp

theorem container_layout_witness:
  "encrypt example_platform empty_vault_text example_password example_rng
     = Some (example_container, \<lambda>i. example_rng (28 + i)) \<and>
   (\<exists>combined.
      base64ToUint8Array example_container = Some combined \<and>
      take 16 combined = [3, 10, 17, 24, 31, 38, 45, 52, 59, 66, 73, 80, 87, 94, 101, 108] \<and>
      take 12 (drop 16 combined) = [115, 122, 129, 136, 143, 150, 157, 164, 171, 178, 185, 192])"
proof -
  from container_layout [OF example_container_sealed]
  obtain combined where
    "base64ToUint8Array example_container = Some combined"
    "take 16 combined = fst (getRandomValues SALT_LENGTH example_rng)"
    "take 12 (drop 16 combined)
       = fst (getRandomValues IV_LENGTH (snd (getRandomValues SALT_LENGTH example_rng)))"
    by blast
  then have "base64ToUint8Array example_container = Some combined \<and>
      take 16 combined = [3, 10, 17, 24, 31, 38, 45, 52, 59, 66, 73, 80, 87, 94, 101, 108] \<and>
      take 12 (drop 16 combined) = [115, 122, 129, 136, 143, 150, 157, 164, 171, 178, 185, 192]"
    by (simp only: random_draws fst_conv snd_conv example_salt example_iv simp_thms)
  with example_container_sealed show ?thesis by blast
qed

text \<open>
  Claim C6. Two successive calls of \<^verbatim>\<open>encrypt\<close> with the same text and password take
  different bytes of the random source: the first container holds bytes 0 to 15 as salt
  and 16 to 27 as nonce, the second one bytes 28 to 43 and 44 to 55. When the source
  gives different values there, the two salts differ and the two nonces differ.
\<close>

theorem successive_seals_fresh_salt_nonce:
  assumes "encrypt pf plaintext pw g = Some (c1, g1)"
    and "encrypt pf plaintext pw g1 = Some (c2, g2)"
  shows "container_salt c1 = map g [0..<16] \<and> container_iv c1 = map g [16..<28] \<and>
         container_salt c2 = map g [28..<44] \<and> container_iv c2 = map g [44..<56] \<and>
         (map g [0..<16] \<noteq> map g [28..<44] \<longrightarrow> container_salt c1 \<noteq> container_salt c2) \<and>
         (map g [16..<28] \<noteq> map g [44..<56] \<longrightarrow> container_iv c1 \<noteq> container_iv c2)"
proof -
  have g1: "g1 = (\<lambda>i. g (28 + i))"
    by (rule container_parts(2) [OF assms(1)])
  have s2: "map g1 [0..<16] = map g [28..<44]"
    unfolding g1 using map_shift_upt [of g 28 16] by simp
  have i2: "map g1 [16..<28] = map g [44..<56]"
  proof -
    have "map g1 [16..<28] = map (\<lambda>i. g1 (16 + i)) [0..<12]"
      using map_shift_upt [of g1 16 12] by simp
    also have "\<dots> = map (\<lambda>i. g (44 + i)) [0..<12]"
      unfolding g1 by (simp add: add.assoc [symmetric])
    also have "\<dots> = map g [44..<56]"
      using map_shift_upt [of g 44 12] by simp
    finally show ?thesis .
  qed
  note f1 = container_fields(1,2) [OF assms(1)]
  note f2 = container_fields(1,2) [OF assms(2), unfolded s2 i2]
  show ?thesis
    unfolding f1 f2 by simp
qed

lemma example_container_next_sealed:
  "encrypt example_platform empty_vault_text example_password (\<lambda>i. example_rng (28 + i))
     = Some (example_container_next, \<lambda>i. example_rng (28 + (28 + i)))"
  by (simp only: example_container_next_def encrypt_eq option.case prod.case)

lemma example_draws_differ:
  "map example_rng [0..<16] \<noteq> map example_rng [28..<44]"
  "map example_rng [16..<28] \<noteq> map example_rng [44..<56]"
  by code_simp+

theorem successive_seals_fresh_salt_nonce_witness:
  "encrypt example_platform empty_vault_text example_password example_rng
     = Some (example_container, \<lambda>i. example_rng (28 + i)) \<and>
   encrypt example_platform empty_vault_text example_password (\<lambda>i. example_rng (28 + i))
     = Some (example_container_next, \<lambda>i. example_rng (28 + (28 + i))) \<and>
   container_salt example_container \<noteq> container_salt example_container_next \<and>
   container_iv example_container \<noteq> container_iv example_container_next"
  using successive_seals_fresh_salt_nonce
          [OF example_container_sealed example_container_next_sealed]
        example_draws_differ example_container_sealed example_container_next_sealed
  by blast

section \<open>The verification artifact and the encryption key\<close>

lemma artifact_fields:
  assumes "hashPassword pf pw g = Some (h, g1)"
  shows "stored_salt h = map g [0..<16]"
    and "stored_bits h = pbkdf2_sha256 pf (stringToBuffer pw) (map g [0..<16]) KEY_ITERATIONS 256"
    and "h \<noteq> []"
proof -
  define salt where "salt = map g [0..<16]"
  define bits where "bits = pbkdf2_sha256 pf (stringToBuffer pw) salt KEY_ITERATIONS 256"
  have l: "length salt = SALT_LENGTH" by (simp add: salt_def SALT_LENGTH_def)
  from assms have h: "h = base64_encode (map unat (salt @ bits))"
    unfolding hashPassword_eq salt_def bits_def by (simp only: option.inject prod.inject)
  have r: "base64ToUint8Array h = Some (salt @ bits)"
    unfolding h by (rule base64_roundtrip)
  show "stored_salt h = map g [0..<16]"
    unfolding stored_salt_def r option.case salt_def [symmetric] by (rule slice_prefix [OF l])
  show "stored_bits h = pbkdf2_sha256 pf (stringToBuffer pw) (map g [0..<16]) KEY_ITERATIONS 256"
    unfolding stored_bits_def r option.case salt_def [symmetric] bits_def [symmetric]
    by (rule slice_from_suffix [OF l])
  show "h \<noteq> []"
  proof
    assume "h = []"
    with r have "base64ToUint8Array [] = Some (salt @ bits)" by simp
    then have "salt @ bits = []"
      by (simp add: base64ToUint8Array_def atob_def strip_padding_def)
    with l show False by (simp add: SALT_LENGTH_def)
  qed
qed

lemma example_artifact_hashed:
  "hashPassword example_platform example_password example_rng
     = Some (example_artifact, \<lambda>i. example_rng (16 + i))"
  by (simp only: example_artifact_def hashPassword_eq option.case prod.case)

text \<open>
  The bits stored in the artifact are not different from the key that \<^verbatim>\<open>deriveKey\<close>
  gives for the same password and the artifact's salt: on the example they are equal.
\<close>

theorem artifact_bits_differ_counterexample:
  "map_option fst (hashPassword example_platform example_password example_rng)
     = Some example_artifact \<and>
   \<not> (stored_bits example_artifact
        \<noteq> raw_key (deriveKey example_platform example_password (stored_salt example_artifact)))"
proof -
  have "map_option fst (hashPassword example_platform example_password example_rng)
          = Some example_artifact"
    by (simp only: example_artifact_hashed option.map fst_conv)
  moreover have "stored_bits example_artifact
      = raw_key (deriveKey example_platform example_password (stored_salt example_artifact))"
    using artifact_fields(1,2) [OF example_artifact_hashed] by (simp add: raw_key_deriveKey)
  ultimately show ?thesis by simp
qed

text \<open>
  Claim C4, amended. The artifact that \<^verbatim>\<open>hashPassword\<close> returns holds the salt it drew
  and, after it, exactly the key bits that \<^verbatim>\<open>deriveKey\<close> derives from the same password
  and that salt: both are PBKDF2 with the same parameters. The artifact differs from the
  key of a container only through the salt, which each call draws anew.
\<close>

theorem artifact_bits_are_key_bits:
  assumes "hashPassword pf pw g = Some (h, g1)"
  shows "stored_salt h = fst (getRandomValues SALT_LENGTH g) \<and>
         stored_bits h = raw_key (deriveKey pf pw (stored_salt h))"
  unfolding artifact_fields(1,2) [OF assms] random_draws raw_key_deriveKey by simp

theorem artifact_bits_are_key_bits_witness:
  "hashPassword example_platform example_password example_rng
     = Some (example_artifact, \<lambda>i. example_rng (16 + i)) \<and>
   stored_salt example_artifact
     = [3, 10, 17, 24, 31, 38, 45, 52, 59, 66, 73, 80, 87, 94, 101, 108] \<and>
   stored_bits example_artifact
     = raw_key (deriveKey example_platform example_password
          [3, 10, 17, 24, 31, 38, 45, 52, 59, 66, 73, 80, 87, 94, 101, 108])"
  using artifact_bits_are_key_bits [OF example_artifact_hashed] example_artifact_hashed
  by (simp only: random_draws fst_conv example_salt simp_thms)

section \<open>Sealing and opening\<close>

lemma decrypt_encrypt:
  assumes "\<forall>key iv pt. aes_gcm_decrypt pf key iv (aes_gcm_encrypt pf key iv pt) = Some pt"
    and "encrypt pf s pw g = Some (c, g')"
  shows "decrypt pf c pw = Some (bufferToString (stringToBuffer s))"
proof -
  define salt where "salt = map g [0..<16]"
  define iv where "iv = map g [16..<28]"
  define ct where "ct = aes_gcm_encrypt pf (raw_key (deriveKey pf pw salt)) iv (stringToBuffer s)"
  have l: "length salt = 16" "length iv = 12" by (simp_all add: salt_def iv_def)
  have p: "base64ToUint8Array c = Some (salt @ iv @ ct)"
    using container_parts(1) [OF assms(2)] by (simp only: salt_def iv_def ct_def)
  have d: "aes_gcm_decrypt pf (raw_key (deriveKey pf pw salt)) iv ct = Some (stringToBuffer s)"
    unfolding ct_def using assms(1) by blast
  show ?thesis
    unfolding decrypt_unfold p option.case using l d by simp
qed

lemma container_not_empty:
  assumes "encrypt pf s pw g = Some (c, g')"
  shows "c \<noteq> []"
proof
  assume "c = []"
  with container_parts(1) [OF assms]
  have "base64ToUint8Array [] = Some (map g [0..<16] @ map g [16..<28] @
      aes_gcm_encrypt pf (raw_key (deriveKey pf pw (map g [0..<16]))) (map g [16..<28])
        (stringToBuffer s))" by simp
  then have "length (map g [0..<16] @ map g [16..<28] @
      aes_gcm_encrypt pf (raw_key (deriveKey pf pw (map g [0..<16]))) (map g [16..<28])
        (stringToBuffer s)) = 0"
    by (simp add: base64ToUint8Array_def atob_def strip_padding_def)
  then show False by simp
qed

lemma credentials_member:
  "get_member (VaultData pf credentials version) (js ''credentials'') = Some (Val credentials)"
  by (simp add: VaultData_def js_def)

lemma unlock_sealed:
  assumes "getItem st MASTER_HASH_KEY = Some h" and "h \<noteq> []" and "verifyPassword pf pw h"
    and "getItem st VAULT_STORAGE_KEY = Some c" and "c \<noteq> []"
    and "decrypt pf c pw = Some plaintext"
    and "json_parse pf plaintext = Some vaultData"
    and "get_member vaultData (js ''credentials'') = Some v"
  shows "unlockVault pf pw (st, g) = (Returns v, st, g)"
  using assms by (simp add: unlockVault_def falsy_item_def)

lemma empty_VaultData:
  "VaultData pf (JArr []) VAULT_VERSION
     = JObj [(js ''credentials'', JArr []), (js ''version'', JNum (num_literal pf 1))]"
  by (simp add: VaultData_def VAULT_VERSION_def)

lemma createVault_eq:
  assumes "hashPassword pf pw g = Some (hash, g1)"
    and "encrypt pf
           (json_stringify pf
              (JObj [(js ''credentials'', JArr []), (js ''version'', JNum (num_literal pf 1))]))
           pw g1 = Some (container, g2)"
  shows "createVault pf pw (st, g) =
     (if storage_accepts pf st MASTER_HASH_KEY hash then
        (if storage_accepts pf (st(MASTER_HASH_KEY \<mapsto> hash)) VAULT_STORAGE_KEY container
         then (Returns (), st(MASTER_HASH_KEY \<mapsto> hash, VAULT_STORAGE_KEY \<mapsto> container), g2)
         else (Throws, st(MASTER_HASH_KEY \<mapsto> hash), g2))
      else (Throws, st, g1))"
  using assms by (simp add: createVault_def empty_VaultData setItem_def)


lemma falsy_absent: "falsy_item None"
  by (simp add: falsy_item_def)

lemma saveVault_eq:
  assumes "encrypt pf (json_stringify pf (VaultData pf credentials VAULT_VERSION)) pw g
             = Some (c, g')"
  shows "saveVault pf credentials pw (st, g) =
     (if storage_accepts pf st VAULT_STORAGE_KEY c
      then (Returns (), st(VAULT_STORAGE_KEY \<mapsto> c), g') else (Throws, st, g'))"
  using assms by (simp add: saveVault_def setItem_def)

lemma example_cipher:
  "\<forall>key iv pt. aes_gcm_decrypt example_platform key iv
                    (aes_gcm_encrypt example_platform key iv pt) = Some pt"
proof (intro allI)
  fix key iv pt
  have "(\<lambda>b. b XOR example_mask key iv) \<circ> (\<lambda>b. b XOR example_mask key iv) = id"
    by (rule ext) (simp add: xor.assoc)
  then have x: "map ((\<lambda>b. b XOR example_mask key iv) \<circ> (\<lambda>b. b XOR example_mask key iv)) pt = pt"
    by (simp only: list.map_id)
  show "aes_gcm_decrypt example_platform key iv (aes_gcm_encrypt example_platform key iv pt)
          = Some pt"
    by (simp add: example_platform_def example_encrypt_def example_decrypt_def x)
qed

lemma ascii_text:
  "list_all (\<lambda>u. unat u < 0x80) s \<Longrightarrow> well_formed_utf16 s \<and> \<not> starts_with_bom s"
proof (induction s rule: well_formed_utf16.induct)
  case 1
  show ?case by (simp add: starts_with_bom_def)
next
  case (2 u)
  then have "unat u < 0x80" by simp
  then show ?case
    by (auto simp: starts_with_bom_def is_high_surrogate_def is_low_surrogate_def)
next
  case (3 u v rest)
  then have u: "unat u < 0x80" and r: "list_all (\<lambda>u. unat u < 0x80) (v # rest)" by simp_all
  from u have s: "\<not> is_high_surrogate u" "\<not> is_low_surrogate u" "u \<noteq> 0xFEFF"
    by (auto simp: is_high_surrogate_def is_low_surrogate_def)
  from "3.IH"(2) s r have "well_formed_utf16 (v # rest)" by simp
  with s show ?case by (simp add: starts_with_bom_def)
qed

lemma version1_text_ascii:
  "list_all (\<lambda>u. unat u < 0x80) (example_stringify version1_doc)"
  by (simp add: version1_doc_def example_json_defs)

lemma version1_parse:
  "example_parse (example_stringify version1_doc) = Some version1_doc"
  by (simp add: version1_doc_def example_json_defs)

lemma sealed_example:
  "encrypt example_platform s example_password example_rng
     = Some (case encrypt example_platform s example_password example_rng of
               None \<Rightarrow> [] | Some (c, g) \<Rightarrow> c, \<lambda>i. example_rng (28 + i))"
  by (simp only: encrypt_eq option.case prod.case)

lemma bom_container_sealed:
  "encrypt example_platform bom_text example_password example_rng
     = Some (bom_container, \<lambda>i. example_rng (28 + i))"
  unfolding bom_container_def by (rule sealed_example)

text \<open>
  A text that starts with a byte order mark does not come back: the decoder drops the
  mark, so the container made for the two code units U+FEFF, \<^verbatim>\<open>a\<close> opens to the one
  code unit \<^verbatim>\<open>a\<close>.
\<close>

theorem decrypt_encrypt_bom_counterexample:
  "map_option fst (encrypt example_platform bom_text example_password example_rng)
     = Some bom_container \<and>
   decrypt example_platform bom_container example_password = Some [0x61] \<and>
   bom_text \<noteq> [0x61]"
proof -
  have "decrypt example_platform bom_container example_password = Some [0x61]"
    using decrypt_encrypt [OF example_cipher bom_container_sealed] bom_is_dropped
    by (simp add: bufferToString_def stringToBuffer_def bom_text_def)
  moreover have "map_option fst (encrypt example_platform bom_text example_password example_rng)
      = Some bom_container"
    by (simp only: bom_container_sealed option.map fst_conv)
  moreover have "bom_text \<noteq> [0x61]"
    by (simp add: bom_text_def)
  ultimately show ?thesis by blast
qed

text \<open>
  Claim C1, amended. Let the cipher decrypt what it encrypted. For every password and
  every text that is well-formed UTF-16 and does not start with U+FEFF, \<^verbatim>\<open>encrypt\<close>
  succeeds and \<^verbatim>\<open>decrypt\<close> of its result with the same password gives the text back.
  For every list of credentials whose serialization is such a text and is parsed back to
  the same value, in a storage whose artifact verifies the password: \<^verbatim>\<open>saveVault\<close>
  returns when the storage accepts the container and throws, with the storage as it
  was, when it does not; and whenever \<^verbatim>\<open>saveVault\<close> returns, \<^verbatim>\<open>unlockVault\<close> with the
  same password returns the credentials.
\<close>

theorem seal_open_roundtrip:
  assumes "\<forall>key iv pt. aes_gcm_decrypt pf key iv (aes_gcm_encrypt pf key iv pt) = Some pt"
    and "well_formed_utf16 s" and "\<not> starts_with_bom s"
    and "well_formed_utf16
           (json_stringify pf (VaultData pf (JArr (map credential_object cs)) VAULT_VERSION))"
    and "\<not> starts_with_bom
           (json_stringify pf (VaultData pf (JArr (map credential_object cs)) VAULT_VERSION))"
    and "json_parse pf
           (json_stringify pf (VaultData pf (JArr (map credential_object cs)) VAULT_VERSION))
         = Some (VaultData pf (JArr (map credential_object cs)) VAULT_VERSION)"
    and "getItem st MASTER_HASH_KEY = Some h" and "h \<noteq> []" and "verifyPassword pf pw h"
  shows "(\<exists>c g'. encrypt pf s pw g = Some (c, g') \<and> decrypt pf c pw = Some s) \<and>
         (\<exists>c g'.
            encrypt pf
              (json_stringify pf (VaultData pf (JArr (map credential_object cs)) VAULT_VERSION))
              pw g = Some (c, g') \<and>
            (storage_accepts pf st VAULT_STORAGE_KEY c \<longrightarrow>
               saveVault pf (JArr (map credential_object cs)) pw (st, g)
                 = (Returns (), st(VAULT_STORAGE_KEY \<mapsto> c), g')) \<and>
            (\<not> storage_accepts pf st VAULT_STORAGE_KEY c \<longrightarrow>
               saveVault pf (JArr (map credential_object cs)) pw (st, g) = (Throws, st, g'))) \<and>
         (\<forall>st' g'.
            saveVault pf (JArr (map credential_object cs)) pw (st, g) = (Returns (), st', g') \<longrightarrow>
            unlockVault pf pw (st', g')
              = (Returns (Val (JArr (map credential_object cs))), st', g'))"
proof -
  obtain c g' where e: "encrypt pf s pw g = Some (c, g')"
    by (simp add: encrypt_eq)
  have "decrypt pf c pw = Some s"
    using decrypt_encrypt [OF assms(1) e] text_roundtrip [OF assms(2,3)]
    by (simp add: bufferToString_def stringToBuffer_def)
  with e have a: "\<exists>c g'. encrypt pf s pw g = Some (c, g') \<and> decrypt pf c pw = Some s"
    by blast
  define vtext where
    "vtext = json_stringify pf (VaultData pf (JArr (map credential_object cs)) VAULT_VERSION)"
  obtain c2 g2 where e2: "encrypt pf vtext pw g = Some (c2, g2)"
    by (simp add: encrypt_eq)
  have d2: "decrypt pf c2 pw = Some vtext"
    using decrypt_encrypt [OF assms(1) e2] text_roundtrip [OF assms(4,5)]
    by (simp add: bufferToString_def stringToBuffer_def vtext_def)
  note sv = saveVault_eq [OF e2 [unfolded vtext_def], of st]
  have b: "\<exists>c g'.
            encrypt pf vtext pw g = Some (c, g') \<and>
            (storage_accepts pf st VAULT_STORAGE_KEY c \<longrightarrow>
               saveVault pf (JArr (map credential_object cs)) pw (st, g)
                 = (Returns (), st(VAULT_STORAGE_KEY \<mapsto> c), g')) \<and>
            (\<not> storage_accepts pf st VAULT_STORAGE_KEY c \<longrightarrow>
               saveVault pf (JArr (map credential_object cs)) pw (st, g) = (Throws, st, g'))"
    using e2 sv by auto
  have u: "unlockVault pf pw (st', g')
             = (Returns (Val (JArr (map credential_object cs))), st', g')"
    if r: "saveVault pf (JArr (map credential_object cs)) pw (st, g) = (Returns (), st', g')"
    for st' g'
  proof -
    from r sv have s: "st' = st(VAULT_STORAGE_KEY \<mapsto> c2)"
      by (simp split: if_splits)
    have k1: "getItem st' MASTER_HASH_KEY = Some h"
      using assms(7) storage_keys_distinct by (simp add: s getItem_def)
    have k2: "getItem st' VAULT_STORAGE_KEY = Some c2"
      by (simp add: s getItem_def)
    show ?thesis
      by (rule unlock_sealed [OF k1 assms(8,9) k2 container_not_empty [OF e2] d2
            assms(6) [folded vtext_def] credentials_member])
  qed
  from a b [unfolded vtext_def] u show ?thesis by blast
qed

lemma hello_ascii: "list_all (\<lambda>u. unat u < 0x80) (js ''hello'')"
  by (simp add: js_def)

lemma version1_vault:
  "VaultData example_platform (JArr (map credential_object [example_credential])) VAULT_VERSION
     = version1_doc"
  by (simp add: VaultData_def VAULT_VERSION_def version1_doc_def example_platform_def)

lemma version1_container_sealed:
  "encrypt example_platform (example_stringify version1_doc) example_password example_rng
     = Some (version1_container, \<lambda>i. example_rng (28 + i))"
  unfolding version1_container_def by (rule sealed_example)

lemma saved_store_eq:
  "hash_only_store(VAULT_STORAGE_KEY \<mapsto> version1_container) = saved_store"
  using storage_keys_distinct
  by (simp add: hash_only_store_def saved_store_def fun_upd_twist)

lemma example_saveVault:
  "saveVault example_platform (JArr (map credential_object [example_credential]))
     example_password (hash_only_store, example_rng)
   = (Returns (), saved_store, \<lambda>i. example_rng (28 + i))"
proof -
  have t: "json_stringify example_platform
             (VaultData example_platform (JArr (map credential_object [example_credential]))
                VAULT_VERSION)
           = example_stringify version1_doc"
    unfolding version1_vault by (simp add: example_platform_def)
  have a: "storage_accepts example_platform hash_only_store VAULT_STORAGE_KEY version1_container"
    by (simp add: example_platform_def)
  show ?thesis
    unfolding saveVault_eq [OF version1_container_sealed [folded t]] saved_store_eq
    using a by simp
qed

theorem seal_open_roundtrip_witness:
  "(\<exists>c g'. encrypt example_platform (js ''hello'') example_password example_rng = Some (c, g') \<and>
      decrypt example_platform c example_password = Some (js ''hello'')) \<and>
   storage_accepts example_platform hash_only_store VAULT_STORAGE_KEY version1_container \<and>
   saveVault example_platform (JArr (map credential_object [example_credential]))
     example_password (hash_only_store, example_rng)
     = (Returns (), saved_store, \<lambda>i. example_rng (28 + i)) \<and>
   unlockVault example_platform example_password (saved_store, \<lambda>i. example_rng (28 + i))
     = (Returns (Val (JArr (map credential_object [example_credential]))),
        saved_store, \<lambda>i. example_rng (28 + i))"
proof -
  note h = ascii_text [OF hello_ascii]
  have t: "json_stringify example_platform
             (VaultData example_platform (JArr (map credential_object [example_credential]))
                VAULT_VERSION)
           = example_stringify version1_doc"
    unfolding version1_vault by (simp add: example_platform_def)
  note v = ascii_text [OF version1_text_ascii, folded t]
  have p: "json_parse example_platform
             (json_stringify example_platform
                (VaultData example_platform (JArr (map credential_object [example_credential]))
                   VAULT_VERSION))
           = Some (VaultData example_platform
                     (JArr (map credential_object [example_credential])) VAULT_VERSION)"
    unfolding t version1_vault using version1_parse by (simp add: example_platform_def)
  have a: "storage_accepts example_platform hash_only_store VAULT_STORAGE_KEY version1_container"
    by (simp add: example_platform_def)
  note r = seal_open_roundtrip
          [OF example_cipher conjunct1 [OF h] conjunct2 [OF h] conjunct1 [OF v] conjunct2 [OF v] p
              hash_only_store_items(1) artifact_fields(3) [OF example_artifact_hashed]
              verify_own_hash [OF example_artifact_hashed], of example_rng]
  from r have r1: "\<exists>c g'. encrypt example_platform (js ''hello'') example_password example_rng
                       = Some (c, g') \<and>
                     decrypt example_platform c example_password = Some (js ''hello'')"
    by (rule conjunct1)
  from r example_saveVault
  have r3: "unlockVault example_platform example_password (saved_store, \<lambda>i. example_rng (28 + i))
     = (Returns (Val (JArr (map credential_object [example_credential]))),
        saved_store, \<lambda>i. example_rng (28 + i))"
    by blast
  from r1 a example_saveVault r3 show ?thesis by (intro conjI)
qed

section \<open>The version tag\<close>

lemma version2_container_sealed:
  "encrypt example_platform (example_stringify version2_doc) example_password example_rng
     = Some (version2_container, \<lambda>i. example_rng (28 + i))"
  unfolding version2_container_def by (rule sealed_example)

lemma version3_container_sealed:
  "encrypt example_platform (example_stringify version3_doc) example_password example_rng
     = Some (version3_container, \<lambda>i. example_rng (28 + i))"
  unfolding version3_container_def by (rule sealed_example)

lemma version2_text_ascii:
  "list_all (\<lambda>u. unat u < 0x80) (example_stringify version2_doc)"
  by (simp add: version2_doc_def example_json_defs)

lemma version3_text_ascii:
  "list_all (\<lambda>u. unat u < 0x80) (example_stringify version3_doc)"
  by (simp add: version3_doc_def example_json_defs)

lemma version2_parse:
  "json_parse example_platform (example_stringify version2_doc) = Some version2_doc"
  by (simp add: example_platform_def version2_doc_def example_json_defs)

lemma version3_parse:
  "json_parse example_platform (example_stringify version3_doc) = Some version3_doc"
  by (simp add: example_platform_def version3_doc_def example_json_defs)

lemma version2_decrypts:
  "decrypt example_platform version2_container example_password
     = Some (example_stringify version2_doc)"
  using decrypt_encrypt [OF example_cipher version2_container_sealed]
    text_roundtrip [OF conjunct1 [OF ascii_text [OF version2_text_ascii]]
                       conjunct2 [OF ascii_text [OF version2_text_ascii]]]
  by (simp add: bufferToString_def stringToBuffer_def)

lemma version3_decrypts:
  "decrypt example_platform version3_container example_password
     = Some (example_stringify version3_doc)"
  using decrypt_encrypt [OF example_cipher version3_container_sealed]
    text_roundtrip [OF conjunct1 [OF ascii_text [OF version3_text_ascii]]
                       conjunct2 [OF ascii_text [OF version3_text_ascii]]]
  by (simp add: bufferToString_def stringToBuffer_def)

lemma version2_store_items:
  "getItem version2_store MASTER_HASH_KEY = Some example_artifact"
  "getItem version2_store VAULT_STORAGE_KEY = Some version2_container"
  using storage_keys_distinct by (simp_all add: getItem_def version2_store_def)

lemma version3_store_items:
  "getItem version3_store MASTER_HASH_KEY = Some example_artifact"
  "getItem version3_store VAULT_STORAGE_KEY = Some version3_container"
  using storage_keys_distinct by (simp_all add: getItem_def version3_store_def)

lemma object_credentials_member:
  "get_member (JObj [(js ''credentials'', credentials), (js ''version'', version)])
     (js ''credentials'') = Some (Val credentials)"
  by (simp add: js_def)

text \<open>
  A container that holds version 2 is unlocked: the stored container decrypts under the
  password to a document whose \<^verbatim>\<open>version\<close> is 2, and \<^verbatim>\<open>unlockVault\<close> returns its
  credentials, not \<^verbatim>\<open>null\<close>.
\<close>

theorem unlock_version2_counterexample:
  "decrypt example_platform version2_container example_password
     = Some (example_stringify version2_doc) \<and>
   json_parse example_platform (example_stringify version2_doc) = Some version2_doc \<and>
   get_member version2_doc (js ''version'') = Some (Val (JNum 2)) \<and>
   fst (unlockVault example_platform example_password (version2_store, example_rng))
     = Returns (Val (JArr [credential_object example_credential])) \<and>
   fst (unlockVault example_platform example_password (version2_store, example_rng))
     \<noteq> Returns (Val JNull)"
proof -
  have m: "get_member version2_doc (js ''credentials'')
             = Some (Val (JArr [credential_object example_credential]))"
    unfolding version2_doc_def by (rule object_credentials_member)
  have v: "get_member version2_doc (js ''version'') = Some (Val (JNum 2))"
    by (simp add: version2_doc_def js_def)
  have u: "unlockVault example_platform example_password (version2_store, example_rng)
          = (Returns (Val (JArr [credential_object example_credential])), version2_store,
             example_rng)"
    by (rule unlock_sealed
          [OF version2_store_items(1) artifact_fields(3) [OF example_artifact_hashed]
              verify_own_hash [OF example_artifact_hashed] version2_store_items(2)
              container_not_empty [OF version2_container_sealed]
              version2_decrypts version2_parse m])
  have r: "fst (unlockVault example_platform example_password (version2_store, example_rng))
           = Returns (Val (JArr [credential_object example_credential]))"
    by (simp only: u fst_conv)
  have n: "fst (unlockVault example_platform example_password (version2_store, example_rng))
           \<noteq> Returns (Val JNull)"
    unfolding r by simp
  from version2_decrypts version2_parse v r n show ?thesis by (intro conjI)
qed

text \<open>
  Claim C3, amended. \<^verbatim>\<open>unlockVault\<close> does not read the version: when the artifact
  verifies the password and the container decrypts to a text that parses to an object
  with the members \<^verbatim>\<open>credentials\<close> and \<^verbatim>\<open>version\<close>, it returns the credentials and
  leaves the storage as it was, whatever the \<^verbatim>\<open>version\<close> member is.
\<close>

theorem unlockVault_ignores_version:
  assumes "getItem st MASTER_HASH_KEY = Some h" and "h \<noteq> []" and "verifyPassword pf pw h"
    and "getItem st VAULT_STORAGE_KEY = Some c" and "c \<noteq> []"
    and "decrypt pf c pw = Some plaintext"
    and "json_parse pf plaintext
           = Some (JObj [(js ''credentials'', credentials), (js ''version'', version)])"
  shows "unlockVault pf pw (st, g) = (Returns (Val credentials), st, g)"
  by (rule unlock_sealed [OF assms object_credentials_member])

theorem unlockVault_ignores_version_witness:
  "getItem version3_store MASTER_HASH_KEY = Some example_artifact \<and>
   example_artifact \<noteq> [] \<and>
   verifyPassword example_platform example_password example_artifact \<and>
   getItem version3_store VAULT_STORAGE_KEY = Some version3_container \<and>
   version3_container \<noteq> [] \<and>
   decrypt example_platform version3_container example_password
     = Some (example_stringify version3_doc) \<and>
   json_parse example_platform (example_stringify version3_doc)
     = Some (JObj [(js ''credentials'', JArr []), (js ''version'', JNum 3)]) \<and>
   unlockVault example_platform example_password (version3_store, example_rng)
     = (Returns (Val (JArr [])), version3_store, example_rng)"
proof -
  have p: "json_parse example_platform (example_stringify version3_doc)
             = Some (JObj [(js ''credentials'', JArr []), (js ''version'', JNum 3)])"
    unfolding version3_parse by (simp add: version3_doc_def)
  note a = version3_store_items(1) artifact_fields(3) [OF example_artifact_hashed]
    verify_own_hash [OF example_artifact_hashed] version3_store_items(2)
    container_not_empty [OF version3_container_sealed] version3_decrypts
  from unlockVault_ignores_version [OF a p, of example_rng] a p
  show ?thesis
    by (intro conjI)
qed

section \<open>Recovery of a missing container\<close>



lemma full_deriveBits:
  "subtle_deriveBits full_platform salt k keyMaterial n
     = subtle_deriveBits example_platform salt k keyMaterial n"
  by (simp add: subtle_deriveBits_def full_platform_def)

lemma full_platform_functions:
  "hashPassword full_platform pw g = hashPassword example_platform pw g"
  "encrypt full_platform s pw g = encrypt example_platform s pw g"
  "json_stringify full_platform = json_stringify example_platform"
  "num_literal full_platform = num_literal example_platform"
  by (simp_all add: hashPassword_eq encrypt_eq raw_key_deriveKey full_platform_def)

lemma full_platform_verifies:
  "verifyPassword full_platform pw h = verifyPassword example_platform pw h"
  by (simp only: verifyPassword_def full_deriveBits)

lemma later_artifact_hashed:
  "hashPassword example_platform example_password later_rng
     = Some (later_artifact, \<lambda>i. later_rng (16 + i))"
  by (simp only: later_artifact_def hashPassword_eq option.case prod.case)





lemma later_container_sealed:
  "encrypt example_platform empty_vault_text example_password (\<lambda>i. later_rng (16 + i))
     = Some (later_container, \<lambda>i. later_rng (16 + (28 + i)))"
  by (simp only: later_container_def encrypt_eq option.case prod.case)

lemma full_later_artifact_hashed:
  "hashPassword full_platform example_password later_rng
     = Some (later_artifact, \<lambda>i. later_rng (16 + i))"
  unfolding full_platform_functions by (rule later_artifact_hashed)

lemma full_later_container_sealed:
  "encrypt full_platform
     (json_stringify full_platform (VaultData full_platform (JArr []) VAULT_VERSION))
     example_password (\<lambda>i. later_rng (16 + i))
   = Some (later_container, \<lambda>i. later_rng (16 + (28 + i)))"
  unfolding full_platform_functions empty_VaultData
  using later_container_sealed
  by (simp add: empty_vault_text_def empty_VaultData)


lemma full_storage_refuses_container:
  "\<not> storage_accepts full_platform (hash_only_store(MASTER_HASH_KEY \<mapsto> later_artifact))
       VAULT_STORAGE_KEY later_container"
  using storage_keys_distinct
  by (simp add: full_platform_def full_storage_accepts_def hash_only_store_def)












section \<open>Failures of unlocking\<close>

lemma compare_bits_verdict:
  assumes "length storedBits = length newBits"
  shows "fst (compare_bits storedBits newBits 0) = (storedBits = newBits)"
  using compare_bits_steps [OF assms, of 0] takeWhile_zip_eq [OF assms]
  by (simp add: Let_def)

lemma verify_artifact:
  assumes "hashPassword pf pw g = Some (h, g1)"
  shows "verifyPassword pf candidate h =
     (pbkdf2_sha256 pf (stringToBuffer pw) (map g [0..<16]) KEY_ITERATIONS 256
      = pbkdf2_sha256 pf (stringToBuffer candidate) (map g [0..<16]) KEY_ITERATIONS 256)"
proof -
  define salt where "salt = map g [0..<16]"
  define bits where "bits = pbkdf2_sha256 pf (stringToBuffer pw) salt KEY_ITERATIONS 256"
  define new where "new = pbkdf2_sha256 pf (stringToBuffer candidate) salt KEY_ITERATIONS 256"
  have l: "length salt = SALT_LENGTH" by (simp add: salt_def SALT_LENGTH_def)
  from assms have h: "h = base64_encode (map unat (salt @ bits))"
    unfolding hashPassword_eq salt_def bits_def by (simp only: option.inject prod.inject)
  have v: "verifyPassword pf candidate h =
      (if length bits \<noteq> length new then False else fst (compare_bits bits new 0))"
    unfolding verifyPassword_def h base64_roundtrip option.case Let_def
      subtle_deriveBits_def subtle_importKey_def crypto_key.sel
    by (simp add: slice_prefix [OF l] slice_from_suffix [OF l] new_def)
  show ?thesis
    unfolding salt_def [symmetric] bits_def [symmetric] new_def [symmetric] v
    using compare_bits_verdict [of bits new] by auto
qed

lemma createVault_throws:
  "(fst (createVault pf pw (st, g)) = Throws) =
   (\<exists>hash g1 container g2.
      hashPassword pf pw g = Some (hash, g1) \<and>
      encrypt pf (json_stringify pf (VaultData pf (JArr []) VAULT_VERSION)) pw g1
        = Some (container, g2) \<and>
      (\<not> storage_accepts pf st MASTER_HASH_KEY hash \<or>
       \<not> storage_accepts pf (st(MASTER_HASH_KEY \<mapsto> hash)) VAULT_STORAGE_KEY container))"
proof -
  obtain hash g1 where hp: "hashPassword pf pw g = Some (hash, g1)"
    by (simp add: hashPassword_eq)
  obtain container g2 where
    en: "encrypt pf (json_stringify pf (VaultData pf (JArr []) VAULT_VERSION)) pw g1
           = Some (container, g2)"
    by (simp add: encrypt_eq)
  show ?thesis
    unfolding createVault_eq [OF hp en [unfolded empty_VaultData]]
    using hp en by auto
qed

lemma unlockVault_throws:
  "(fst (unlockVault pf pw (st, g)) = Throws) =
   ((\<exists>h. getItem st MASTER_HASH_KEY = Some h \<and> h \<noteq> [] \<and> verifyPassword pf pw h) \<and>
    falsy_item (getItem st VAULT_STORAGE_KEY) \<and>
    fst (createVault pf pw (st, g)) = Throws)"
  by (auto simp: unlockVault_def Let_def split: option.splits prod.splits outcome.splits)

lemma decrypt_fails:
  "base64ToUint8Array c = None \<Longrightarrow> decrypt pf c pw = None"
  "base64ToUint8Array c = Some b \<Longrightarrow>
     subtle_decrypt pf (slice_between b SALT_LENGTH (SALT_LENGTH + IV_LENGTH))
       (deriveKey pf pw (slice_between b 0 SALT_LENGTH)) (slice_from b (SALT_LENGTH + IV_LENGTH)) = None
     \<Longrightarrow> decrypt pf c pw = None"
  by (simp_all add: decrypt_def)

text \<open>
  Claim C5, amended. \<^verbatim>\<open>unlockVault\<close> throws in one case only: the artifact verifies the
  password, the container slot is absent or empty, and the storage refuses one of the two
  writes of \<^verbatim>\<open>createVault\<close>. It returns \<^verbatim>\<open>null\<close>, with the storage and the random
  source as they were, when the artifact is absent or empty, when the artifact does not
  verify the password, when the container is not base64, when the cipher rejects it, and
  when the plaintext is not JSON or is the JSON \<^verbatim>\<open>null\<close>. A version other than the
  current one is not among these causes.
\<close>

theorem unlockVault_failures_are_null:
  "((fst (unlockVault pf pw (st, g)) = Throws) =
    ((\<exists>h. getItem st MASTER_HASH_KEY = Some h \<and> h \<noteq> [] \<and> verifyPassword pf pw h) \<and>
     falsy_item (getItem st VAULT_STORAGE_KEY) \<and>
     (\<exists>hash g1 container g2.
        hashPassword pf pw g = Some (hash, g1) \<and>
        encrypt pf (json_stringify pf (VaultData pf (JArr []) VAULT_VERSION)) pw g1
          = Some (container, g2) \<and>
        (\<not> storage_accepts pf st MASTER_HASH_KEY hash \<or>
         \<not> storage_accepts pf (st(MASTER_HASH_KEY \<mapsto> hash)) VAULT_STORAGE_KEY container)))) \<and>
   ((getItem st MASTER_HASH_KEY = None \<or> getItem st MASTER_HASH_KEY = Some [] \<or>
     (\<exists>h. getItem st MASTER_HASH_KEY = Some h \<and> \<not> verifyPassword pf pw h) \<or>
     (\<exists>c. getItem st VAULT_STORAGE_KEY = Some c \<and> c \<noteq> [] \<and>
        (base64ToUint8Array c = None \<or>
         (\<exists>b. base64ToUint8Array c = Some b \<and>
            subtle_decrypt pf (slice_between b SALT_LENGTH (SALT_LENGTH + IV_LENGTH))
              (deriveKey pf pw (slice_between b 0 SALT_LENGTH))
              (slice_from b (SALT_LENGTH + IV_LENGTH)) = None) \<or>
         (\<exists>t. decrypt pf c pw = Some t \<and>
            (json_parse pf t = None \<or> json_parse pf t = Some JNull)))))
    \<longrightarrow> unlockVault pf pw (st, g) = (Returns (Val JNull), st, g))"
proof (intro conjI impI)
  show "(fst (unlockVault pf pw (st, g)) = Throws) =
    ((\<exists>h. getItem st MASTER_HASH_KEY = Some h \<and> h \<noteq> [] \<and> verifyPassword pf pw h) \<and>
     falsy_item (getItem st VAULT_STORAGE_KEY) \<and>
     (\<exists>hash g1 container g2.
        hashPassword pf pw g = Some (hash, g1) \<and>
        encrypt pf (json_stringify pf (VaultData pf (JArr []) VAULT_VERSION)) pw g1
          = Some (container, g2) \<and>
        (\<not> storage_accepts pf st MASTER_HASH_KEY hash \<or>
         \<not> storage_accepts pf (st(MASTER_HASH_KEY \<mapsto> hash)) VAULT_STORAGE_KEY container)))"
    by (simp only: unlockVault_throws createVault_throws)
next
  let ?null = "unlockVault pf pw (st, g) = (Returns (Val JNull), st, g)"
  have n1: "getItem st MASTER_HASH_KEY = None \<Longrightarrow> ?null"
    by (simp add: unlockVault_def)
  have n2: "getItem st MASTER_HASH_KEY = Some [] \<Longrightarrow> ?null"
    by (simp add: unlockVault_def)
  have n3: "getItem st MASTER_HASH_KEY = Some h \<Longrightarrow> \<not> verifyPassword pf pw h \<Longrightarrow> ?null" for h
    by (simp add: unlockVault_def)
  have n4: "getItem st VAULT_STORAGE_KEY = Some c \<Longrightarrow> c \<noteq> [] \<Longrightarrow> decrypt pf c pw = None
              \<Longrightarrow> ?null" for c
    by (simp add: unlockVault_def falsy_item_def split: option.splits)
  have n5: "getItem st VAULT_STORAGE_KEY = Some c \<Longrightarrow> c \<noteq> [] \<Longrightarrow> decrypt pf c pw = Some t
              \<Longrightarrow> json_parse pf t = None \<or> json_parse pf t = Some JNull \<Longrightarrow> ?null" for c t
    by (auto simp: unlockVault_def falsy_item_def split: option.splits)
  assume "getItem st MASTER_HASH_KEY = None \<or> getItem st MASTER_HASH_KEY = Some [] \<or>
     (\<exists>h. getItem st MASTER_HASH_KEY = Some h \<and> \<not> verifyPassword pf pw h) \<or>
     (\<exists>c. getItem st VAULT_STORAGE_KEY = Some c \<and> c \<noteq> [] \<and>
        (base64ToUint8Array c = None \<or>
         (\<exists>b. base64ToUint8Array c = Some b \<and>
            subtle_decrypt pf (slice_between b SALT_LENGTH (SALT_LENGTH + IV_LENGTH))
              (deriveKey pf pw (slice_between b 0 SALT_LENGTH))
              (slice_from b (SALT_LENGTH + IV_LENGTH)) = None) \<or>
         (\<exists>t. decrypt pf c pw = Some t \<and>
            (json_parse pf t = None \<or> json_parse pf t = Some JNull))))"
  then show ?null
  proof (elim disjE exE conjE)
    assume "getItem st MASTER_HASH_KEY = None"
    then show ?null by (rule n1)
  next
    assume "getItem st MASTER_HASH_KEY = Some []"
    then show ?null by (rule n2)
  next
    fix h assume "getItem st MASTER_HASH_KEY = Some h" "\<not> verifyPassword pf pw h"
    then show ?null by (rule n3)
  next
    fix c assume c: "getItem st VAULT_STORAGE_KEY = Some c" "c \<noteq> []"
      and "base64ToUint8Array c = None"
    from this(3) have "decrypt pf c pw = None" by (rule decrypt_fails(1))
    with c show ?null by (rule n4)
  next
    fix c b assume c: "getItem st VAULT_STORAGE_KEY = Some c" "c \<noteq> []"
      and "base64ToUint8Array c = Some b"
      "subtle_decrypt pf (slice_between b SALT_LENGTH (SALT_LENGTH + IV_LENGTH))
         (deriveKey pf pw (slice_between b 0 SALT_LENGTH))
         (slice_from b (SALT_LENGTH + IV_LENGTH)) = None"
    from this(3,4) have "decrypt pf c pw = None" by (rule decrypt_fails(2))
    with c show ?null by (rule n4)
  next
    fix c t assume "getItem st VAULT_STORAGE_KEY = Some c" "c \<noteq> []"
      "decrypt pf c pw = Some t" "json_parse pf t = None"
    then show ?null by (intro n5 [of c t]) simp_all
  next
    fix c t assume "getItem st VAULT_STORAGE_KEY = Some c" "c \<noteq> []"
      "decrypt pf c pw = Some t" "json_parse pf t = Some JNull"
    then show ?null by (intro n5 [of c t]) simp_all
  qed
qed

lemmas utf8_eval =
  stringToBuffer_def TextEncoder_encode_def utf8_encode_scalar_def
  is_high_surrogate_def is_low_surrogate_def js_def

lemma example_password_bytes:
  "stringToBuffer example_password =
     [99, 111, 114, 114, 101, 99, 116, 45, 104, 111, 114, 115, 101, 45,
      98, 97, 116, 116, 101, 114, 121]"
  by (simp add: example_password_def utf8_eval)

lemma wrong_password_bytes:
  "stringToBuffer wrong_password = [119, 114, 111, 110, 103]"
  by (simp add: wrong_password_def utf8_eval)

lemma example_pbkdf2_first:
  "hd (example_pbkdf2 pw salt k 256) = foldr (\<lambda>a b. a + b) pw (foldr (\<lambda>a b. a + b) salt 0)"
  by (simp add: example_pbkdf2_def upt_rec [of 0 32])

lemma wrong_password_bits:
  "pbkdf2_sha256 example_platform (stringToBuffer example_password)
     (map example_rng [0..<16]) KEY_ITERATIONS 256
   \<noteq> pbkdf2_sha256 example_platform (stringToBuffer wrong_password)
     (map example_rng [0..<16]) KEY_ITERATIONS 256"
proof
  assume "pbkdf2_sha256 example_platform (stringToBuffer example_password)
     (map example_rng [0..<16]) KEY_ITERATIONS 256
   = pbkdf2_sha256 example_platform (stringToBuffer wrong_password)
     (map example_rng [0..<16]) KEY_ITERATIONS 256"
  then have "hd (example_pbkdf2 (stringToBuffer example_password)
                   (map example_rng [0..<16]) KEY_ITERATIONS 256)
           = hd (example_pbkdf2 (stringToBuffer wrong_password)
                   (map example_rng [0..<16]) KEY_ITERATIONS 256)"
    by (simp add: example_platform_def)
  then show False
    unfolding example_pbkdf2_first example_password_bytes wrong_password_bytes by simp
qed

lemma wrong_password_rejected:
  "\<not> verifyPassword example_platform wrong_password example_artifact"
  unfolding verify_artifact [OF example_artifact_hashed] by (rule wrong_password_bits)

theorem unlockVault_failures_are_null_witness:
  "getItem hash_only_store MASTER_HASH_KEY = Some example_artifact \<and>
   \<not> verifyPassword example_platform wrong_password example_artifact \<and>
   unlockVault example_platform wrong_password (hash_only_store, example_rng)
     = (Returns (Val JNull), hash_only_store, example_rng) \<and>
   example_artifact \<noteq> [] \<and>
   verifyPassword full_platform example_password example_artifact \<and>
   falsy_item (getItem hash_only_store VAULT_STORAGE_KEY) \<and>
   \<not> storage_accepts full_platform (hash_only_store(MASTER_HASH_KEY \<mapsto> later_artifact))
       VAULT_STORAGE_KEY later_container \<and>
   fst (unlockVault full_platform example_password (hash_only_store, later_rng)) = Throws"
proof -
  note ne = artifact_fields(3) [OF example_artifact_hashed]
  have ok: "verifyPassword full_platform example_password example_artifact"
    unfolding full_platform_verifies by (rule verify_own_hash [OF example_artifact_hashed])
  have f: "falsy_item (getItem hash_only_store VAULT_STORAGE_KEY)"
    unfolding hash_only_store_items(2) by (rule falsy_absent)
  have n: "unlockVault example_platform wrong_password (hash_only_store, example_rng)
     = (Returns (Val JNull), hash_only_store, example_rng)"
    using unlockVault_failures_are_null
          [of example_platform wrong_password hash_only_store example_rng]
        hash_only_store_items(1) wrong_password_rejected
    by blast
  have t: "fst (unlockVault full_platform example_password (hash_only_store, later_rng)) = Throws"
    using unlockVault_failures_are_null
          [of full_platform example_password hash_only_store later_rng]
        hash_only_store_items(1) ne ok f full_later_artifact_hashed full_later_container_sealed
        full_storage_refuses_container
    by blast
  from hash_only_store_items(1) wrong_password_rejected n ne ok f
    full_storage_refuses_container t
  show ?thesis by (intro conjI)
qed

text \<open>
  A version mismatch does not give \<^verbatim>\<open>null\<close>: for a container that holds the empty
  collection at version 3, \<^verbatim>\<open>unlockVault\<close> returns the empty list.
\<close>

theorem unlock_version3_counterexample:
  "json_parse example_platform (example_stringify version3_doc) = Some version3_doc \<and>
   get_member version3_doc (js ''version'') = Some (Val (JNum 3)) \<and>
   VAULT_VERSION = 1 \<and>
   decrypt example_platform version3_container example_password
     = Some (example_stringify version3_doc) \<and>
   fst (unlockVault example_platform example_password (version3_store, example_rng))
     = Returns (Val (JArr [])) \<and>
   fst (unlockVault example_platform example_password (version3_store, example_rng))
     \<noteq> Returns (Val JNull)"
proof -
  have m: "get_member version3_doc (js ''credentials'') = Some (Val (JArr []))"
    unfolding version3_doc_def by (rule object_credentials_member)
  have v: "get_member version3_doc (js ''version'') = Some (Val (JNum 3))"
    by (simp add: version3_doc_def js_def)
  have u: "unlockVault example_platform example_password (version3_store, example_rng)
          = (Returns (Val (JArr [])), version3_store, example_rng)"
    by (rule unlock_sealed
          [OF version3_store_items(1) artifact_fields(3) [OF example_artifact_hashed]
              verify_own_hash [OF example_artifact_hashed] version3_store_items(2)
              container_not_empty [OF version3_container_sealed]
              version3_decrypts version3_parse m])
  have r: "fst (unlockVault example_platform example_password (version3_store, example_rng))
           = Returns (Val (JArr []))"
    by (simp only: u fst_conv)
  have n: "fst (unlockVault example_platform example_password (version3_store, example_rng))
           \<noteq> Returns (Val JNull)"
    unfolding r by simp
  from version3_parse v VAULT_VERSION_def version3_decrypts r n show ?thesis by (intro conjI)
qed

section \<open>Import\<close>

lemma importVault_writes:
  assumes "json_parse pf data = Some parsed"
    and "get_member parsed (js ''encrypted'') = Some enc" and "truthy pf enc"
    and "get_member parsed (js ''hash'') = Some h" and "truthy pf h"
  shows "importVault pf data st =
     (case value_to_string pf enc of
        None \<Rightarrow> (False, st)
      | Some e \<Rightarrow>
          (case setItem pf st VAULT_STORAGE_KEY e of
             None \<Rightarrow> (False, st)
           | Some st1 \<Rightarrow>
               (case value_to_string pf h of
                  None \<Rightarrow> (False, st1)
                | Some hs \<Rightarrow>
                    (case setItem pf st1 MASTER_HASH_KEY hs of
                       None \<Rightarrow> (False, st1)
                     | Some st2 \<Rightarrow> (True, st2)))))"
  using assms by (simp add: importVault_def)





lemma example_parse_refused:
  "json_parse example_platform refused_import_text = Some refused_import_doc"
  by (simp add: example_platform_def refused_import_text_def example_json_defs)


lemma refused_import_members:
  "get_member refused_import_doc (js ''encrypted'')
     = Some (Val (JObj [(js ''toString'', JNum 1)]))"
  "get_member refused_import_doc (js ''hash'') = Some (Val (JStr (js ''h'')))"
  by (simp_all add: refused_import_doc_def js_def)

lemma own_toString_not_convertible:
  "value_to_string pf (Val (JObj [(js ''toString'', v)])) = None"
  by simp







lemma unchecked_import_never_unlocks:
  "unlockVault pf pw (unchecked_import_store, g)
     = (Returns (Val JNull), unchecked_import_store, g)"
proof -
  have k: "getItem unchecked_import_store MASTER_HASH_KEY = Some (js ''??'')"
    by (simp add: getItem_def unchecked_import_store_def)
  have v: "\<not> verifyPassword pf pw (js ''??'')"
    by (simp add: verifyPassword_def base64ToUint8Array_def atob_question_marks)
  have n: "js ''??'' \<noteq> []"
    by (simp add: js_def)
  show ?thesis
    by (simp add: unlockVault_def k v n)
qed

text \<open>
  Both members of the record are truthy and the call returns \<^verbatim>\<open>false\<close>: the
  \<^verbatim>\<open>encrypted\<close> member is an object with a member named \<^verbatim>\<open>toString\<close>, which
  \<^verbatim>\<open>setItem\<close> cannot convert to a string.
\<close>

theorem importVault_truthy_refused_counterexample:
  "json_parse example_platform refused_import_text = Some refused_import_doc \<and>
   get_member refused_import_doc (js ''encrypted'')
     = Some (Val (JObj [(js ''toString'', JNum 1)])) \<and>
   truthy example_platform (Val (JObj [(js ''toString'', JNum 1)])) \<and>
   get_member refused_import_doc (js ''hash'') = Some (Val (JStr (js ''h''))) \<and>
   truthy example_platform (Val (JStr (js ''h''))) \<and>
   importVault example_platform refused_import_text empty_store = (False, empty_store)"
proof -
  have t1: "truthy example_platform (Val (JObj [(js ''toString'', JNum 1)]))" by simp
  have t2: "truthy example_platform (Val (JStr (js ''h'')))" by (simp add: js_def)
  have i: "importVault example_platform refused_import_text empty_store = (False, empty_store)"
    unfolding importVault_writes [OF example_parse_refused refused_import_members(1) t1
                refused_import_members(2) t2]
    by simp
  from example_parse_refused refused_import_members(1) t1 refused_import_members(2) t2 i
  show ?thesis by (intro conjI)
qed

text \<open>
  Claim C10, amended. When the parsed value has a truthy \<^verbatim>\<open>encrypted\<close> member and a
  truthy \<^verbatim>\<open>hash\<close> member, both can be converted to strings, and the storage accepts both
  writes, \<^verbatim>\<open>importVault\<close> returns \<^verbatim>\<open>true\<close> and stores the two converted members: a
  member that is a string is always convertible and is stored verbatim. Nothing else is
  looked at: not the encoding or the length of the strings, not the \<^verbatim>\<open>version\<close> member.
  The example imports a record of version 99 whose hash is not base64; the import
  succeeds and no password unlocks the result.
\<close>

theorem importVault_installs_unvalidated:
  assumes "json_parse pf data = Some parsed"
    and "get_member parsed (js ''encrypted'') = Some enc" and "truthy pf enc"
    and "get_member parsed (js ''hash'') = Some h" and "truthy pf h"
    and "value_to_string pf enc = Some e" and "value_to_string pf h = Some hs"
    and "storage_accepts pf st VAULT_STORAGE_KEY e"
    and "storage_accepts pf (st(VAULT_STORAGE_KEY \<mapsto> e)) MASTER_HASH_KEY hs"
  shows "importVault pf data st
           = (True, st(VAULT_STORAGE_KEY \<mapsto> e, MASTER_HASH_KEY \<mapsto> hs)) \<and>
         (\<forall>s. enc = Val (JStr s) \<longrightarrow> e = s) \<and>
         (\<forall>s. h = Val (JStr s) \<longrightarrow> hs = s) \<and>
         (\<forall>s. value_to_string pf (Val (JStr s)) = Some s)"
proof -
  have "importVault pf data st
           = (True, st(VAULT_STORAGE_KEY \<mapsto> e, MASTER_HASH_KEY \<mapsto> hs))"
    unfolding importVault_writes [OF assms(1-5)] using assms(6-9) by (simp add: setItem_def)
  moreover have "\<forall>s. enc = Val (JStr s) \<longrightarrow> e = s" using assms(6) by auto
  moreover have "\<forall>s. h = Val (JStr s) \<longrightarrow> hs = s" using assms(7) by auto
  moreover have "\<forall>s. value_to_string pf (Val (JStr s)) = Some s" by simp
  ultimately show ?thesis by (intro conjI)
qed

theorem importVault_installs_unvalidated_witness:
  "json_parse example_platform unchecked_import_text = Some unchecked_import_doc \<and>
   get_member unchecked_import_doc (js ''encrypted'') = Some (Val (JStr (js ''!!''))) \<and>
   truthy example_platform (Val (JStr (js ''!!''))) \<and>
   get_member unchecked_import_doc (js ''hash'') = Some (Val (JStr (js ''??''))) \<and>
   truthy example_platform (Val (JStr (js ''??''))) \<and>
   importVault example_platform unchecked_import_text empty_store
     = (True, unchecked_import_store) \<and>
   (\<forall>pw g. unlockVault example_platform pw (unchecked_import_store, g)
             = (Returns (Val JNull), unchecked_import_store, g))"
proof -
  have t1: "truthy example_platform (Val (JStr (js ''!!'')))" by (simp add: js_def)
  have t2: "truthy example_platform (Val (JStr (js ''??'')))" by (simp add: js_def)
  have c1: "value_to_string example_platform (Val (JStr (js ''!!''))) = Some (js ''!!'')"
    by simp
  have c2: "value_to_string example_platform (Val (JStr (js ''??''))) = Some (js ''??'')"
    by simp
  have r1: "storage_accepts example_platform empty_store VAULT_STORAGE_KEY (js ''!!'')"
    by (simp add: example_platform_def)
  have r2: "storage_accepts example_platform (empty_store(VAULT_STORAGE_KEY \<mapsto> js ''!!''))
              MASTER_HASH_KEY (js ''??'')"
    by (simp add: example_platform_def)
  have "importVault example_platform unchecked_import_text empty_store
          = (True, unchecked_import_store)"
    using importVault_installs_unvalidated
            [OF example_parse_unchecked unchecked_import_members(1) t1
                unchecked_import_members(2) t2 c1 c2 r1 r2]
    by (simp add: unchecked_import_store_def empty_store_def)
  then show ?thesis
    using t1 t2 example_parse_unchecked unchecked_import_members
    by (simp add: unchecked_import_never_unlocks)
qed

end
